theory Spec2Isabelle
  imports Complex_Main "HOL-Library.Word" "HOL-Library.Sublist"
begin

section \<open>JavaScript strings\<close>

text \<open>
  A JavaScript string is a sequence of UTF-16 code units; \<open>length\<close>, \<open>split\<close>,
  \<open>trim\<close> and \<open>includes\<close> all work on code units. \<open>js\<close> embeds an ASCII/Latin-1
  literal.
\<close>

type_synonym jsstring = "16 word list"

definition js :: "string \<Rightarrow> jsstring" where
  "js s = map of_char s"

text \<open>
  \<open>String.prototype.trim\<close> removes WhiteSpace and LineTerminator code points from both
  ends: TAB, LF, VT, FF, CR, SPACE, NBSP, U+1680, U+2000..U+200A, U+2028, U+2029, U+202F,
  U+205F, U+3000 and U+FEFF.
\<close>

definition is_ws :: "16 word \<Rightarrow> bool" where
  "is_ws c =
     (c \<in> set [0x9, 0xA, 0xB, 0xC, 0xD, 0x20, 0xA0, 0x1680, 0x2028, 0x2029, 0x202F, 0x205F,
               0x3000, 0xFEFF]
      \<or> (0x2000 \<le> c \<and> c \<le> 0x200A))"

definition trim :: "jsstring \<Rightarrow> jsstring" where
  "trim s = rev (dropWhile is_ws (rev (dropWhile is_ws s)))"

text \<open>\<open>s.split('\n')\<close>: the pieces between line feeds; never the empty array.\<close>

fun split_nl :: "jsstring \<Rightarrow> jsstring list" where
  "split_nl [] = [[]]"
| "split_nl (c # cs) =
     (if c = 0xA then [] # split_nl cs
      else (case split_nl cs of [] \<Rightarrow> [[c]] | l # ls \<Rightarrow> (c # l) # ls))"

text \<open>\<open>s.includes(t)\<close>: \<open>t\<close> occurs in \<open>s\<close> as a contiguous run.\<close>

fun includes_str :: "jsstring \<Rightarrow> jsstring \<Rightarrow> bool" where
  "includes_str [] t = (t = [])"
| "includes_str (c # s) t = (prefix t (c # s) \<or> includes_str s t)"

text \<open>
  The instruction list of the act operation (line 437):
  \<open>instructionsRaw.split('\n').map(s => s.trim()).filter(s => s.length > 0)\<close>.
\<close>

definition act_instructions :: "jsstring \<Rightarrow> jsstring list" where
  "act_instructions instructionsRaw =
     filter (\<lambda>s. length s > 0) (map trim (split_nl instructionsRaw))"

text \<open>
  The instruction of extract and observe (lines 459 and 508):
  \<open>instructionsRaw.split('\n')[0]?.trim() || ''\<close>. Element 0 always exists; an empty
  trimmed line is falsy and is replaced by the empty string.
\<close>

definition first_instruction :: "jsstring \<Rightarrow> jsstring" where
  "first_instruction instructionsRaw =
     (case split_nl instructionsRaw of
        [] \<Rightarrow> []
      | l # _ \<Rightarrow> (if trim l = [] then [] else trim l))"


section \<open>JSON values\<close>

text \<open>
  A JavaScript number is an IEEE-754 double: a finite value (a rational; \<open>Finite 0\<close> is
  +0), the negative zero, NaN, or an infinity. Addition of numbers and their printing are
  the language's own and are taken as parameters further down.
\<close>

datatype jsnum = Finite rat | NegZero | NaN | PosInf | NegInf

text \<open>The numbers that are falsy: both zeros and NaN.\<close>

fun falsy_num :: "jsnum \<Rightarrow> bool" where
  "falsy_num (Finite q) = (q = 0)"
| "falsy_num NegZero = True"
| "falsy_num NaN = True"
| "falsy_num _ = False"

text \<open>
  The values \<open>JSON.parse\<close> returns. An object is its list of own properties, looked up by
  key.
\<close>

datatype json =
    JNull
  | JBool bool
  | JNum jsnum
  | JStr jsstring
  | JArr "json list"
  | JObj "(jsstring \<times> json) list"

text \<open>JavaScript truthiness of a JSON value.\<close>

fun truthy :: "json \<Rightarrow> bool" where
  "truthy JNull = False"
| "truthy (JBool b) = b"
| "truthy (JNum n) = (\<not> falsy_num n)"
| "truthy (JStr s) = (s \<noteq> [])"
| "truthy (JArr _) = True"
| "truthy (JObj _) = True"

text \<open>
  Reading a property \<open>v.k\<close> of a non-null value, for the keys this program reads: an
  object yields its own property, every other value yields \<open>undefined\<close> (\<open>None\<close>).
\<close>

fun get_prop :: "json \<Rightarrow> jsstring \<Rightarrow> json option" where
  "get_prop (JObj kvs) k = map_of kvs k"
| "get_prop _ k = None"

datatype err = Error jsstring

fun err_message :: "err \<Rightarrow> jsstring" where
  "err_message (Error m) = m"

section \<open>Log messages\<close>

text \<open>
  Modelled from the spec: the \<open>LogLine\<close> type is declared by the automation engine's
  package, not by this repository. The spec's data model gives a log message a category, a
  message, a level and an optional auxiliary payload, a dictionary of entries each holding
  a string value. Category and level are optional here, which covers messages that carry
  them and messages that do not.
\<close>

record aux_entry =
  aux_value :: jsstring
  aux_type :: jsstring

record LogLine =
  category :: "jsstring option"
  message :: jsstring
  level :: "int option"
  auxiliary :: "(jsstring \<rightharpoonup> aux_entry) option"

record out_message =
  om_category :: "jsstring option"
  om_message :: jsstring
  om_level :: "int option"

section \<open>Filtering log messages for output\<close>

text \<open>The predicate of the \<open>filter\<close> call in \<open>sanitizeMessages\<close> (lines 24-27).\<close>

definition keeps :: "(LogLine \<Rightarrow> jsstring) \<Rightarrow> LogLine \<Rightarrow> bool" where
  "keeps stringify msg =
     (let str = stringify msg
      in \<not> includes_str str (js ''image'') \<and> \<not> includes_str str (js ''screenshot'')
         \<and> length str < 5000)"

definition project :: "LogLine \<Rightarrow> out_message" where
  "project msg =
     \<lparr>om_category = category msg, om_message = message msg, om_level = level msg\<rparr>"

definition sanitizeMessages :: "(LogLine \<Rightarrow> jsstring) \<Rightarrow> LogLine list \<Rightarrow> out_message list" where
  "sanitizeMessages stringify messages = map project (filter (keeps stringify) messages)"


section \<open>Type contracts and the schema resolver\<close>

text \<open>
  The contracts the node builds with the zod package. An object contract carries its shape,
  a dictionary from property names to contracts, and whether unknown keys pass through.
\<close>

datatype ztype =
    ZString
  | ZNumber
  | ZBoolean
  | ZAny
  | ZArray ztype
  | ZOptional ztype
  | ZObject "jsstring \<Rightarrow> ztype option" bool

record Field =
  fieldName :: jsstring
  fieldType :: jsstring
  optional :: bool

text \<open>The \<open>switch (fieldType)\<close> of \<open>fieldsToZodSchema\<close> (lines 598-616).\<close>

definition field_ztype :: "jsstring \<Rightarrow> ztype" where
  "field_ztype t =
     (if t = js ''string'' then ZString
      else if t = js ''number'' then ZNumber
      else if t = js ''boolean'' then ZBoolean
      else if t = js ''array'' then ZArray ZAny
      else if t = js ''object'' then ZObject Map.empty True
      else ZAny)"

text \<open>The contract one descriptor stands for: the type of its kind, optional if so marked.\<close>

definition field_entry :: "Field \<Rightarrow> ztype" where
  "field_entry f =
     (if optional f then ZOptional (field_ztype (fieldType f)) else field_ztype (fieldType f))"

text \<open>
  The builtins and packages the node calls, taken as parameters. \<open>JSON.parse\<close> throws on
  malformed text (\<open>Inl\<close>); \<open>JSON.stringify\<close> serialises a log message; \<open>jsonToZod\<close>
  and \<open>jsonSchemaToZod\<close> stand for generating the contract's source text with the
  package and evaluating it with \<open>new Function\<close>; \<open>evalZod\<close> evaluates user-written
  contract text. \<open>num_plus\<close> is the addition of two numbers and \<open>num_str\<close> the
  conversion of a number to a string. \<open>getter_only z k\<close> is the TypeError that assigning
  to the name \<open>k\<close> throws on an object whose prototype is the contract object \<open>z\<close>
  of the zod package, when \<open>z\<close> inherits under that name an accessor property with a
  getter and no setter; it is \<open>None\<close> for every other name.
\<close>

record libs =
  JSON_parse :: "jsstring \<Rightarrow> err + json"
  JSON_stringify :: "LogLine \<Rightarrow> jsstring"
  jsonToZod :: "json \<Rightarrow> err + ztype"
  jsonSchemaToZod :: "json \<Rightarrow> err + ztype"
  evalZod :: "jsstring \<Rightarrow> err + ztype"
  num_plus :: "jsnum \<Rightarrow> jsnum \<Rightarrow> jsnum"
  num_str :: "jsnum \<Rightarrow> jsstring"
  getter_only :: "ztype \<Rightarrow> jsstring \<Rightarrow> err option"

text \<open>
  The plain object \<open>shape\<close> of \<open>fieldsToZodSchema\<close>: its own properties and its
  prototype, \<open>None\<close> while that is still \<open>Object.prototype\<close>.
\<close>

record shape =
  shape_own :: "jsstring \<rightharpoonup> ztype"
  shape_proto :: "ztype option"

text \<open>
  \<open>shape[fieldName] = v\<close> (line 618), in strict mode. The key \<open>__proto__\<close> is the
  accessor inherited from \<open>Object.prototype\<close>: assigning the contract object to it
  replaces the prototype of \<open>shape\<close> and creates no own property. Any other key that is
  an own property is overwritten. A key that is not an own property is looked up along the
  prototype chain: on \<open>Object.prototype\<close> every other name is absent or a writable data
  property, and the assignment creates an own property; once the prototype is a contract
  object, a name it inherits as an accessor without setter makes the assignment throw a
  TypeError, and every other name creates an own property.
\<close>

definition shape_set :: "libs \<Rightarrow> shape \<Rightarrow> jsstring \<Rightarrow> ztype \<Rightarrow> err + shape" where
  "shape_set L sh k v =
     (if k = js ''__proto__'' then Inr (sh\<lparr>shape_proto := Some v\<rparr>)
      else if shape_own sh k \<noteq> None then Inr (sh\<lparr>shape_own := (shape_own sh)(k \<mapsto> v)\<rparr>)
      else (case shape_proto sh of
              None \<Rightarrow> Inr (sh\<lparr>shape_own := (shape_own sh)(k \<mapsto> v)\<rparr>)
            | Some z \<Rightarrow>
                (case getter_only L z k of
                   Some e \<Rightarrow> Inl e
                 | None \<Rightarrow> Inr (sh\<lparr>shape_own := (shape_own sh)(k \<mapsto> v)\<rparr>))))"

definition field_step :: "libs \<Rightarrow> shape \<Rightarrow> Field \<Rightarrow> err + shape" where
  "field_step L sh f =
     (let zType = field_ztype (fieldType f)
      in shape_set L sh (fieldName f) (if optional f then ZOptional zType else zType))"

text \<open>The loop over the descriptors (lines 595-619); a thrown error ends it.\<close>

fun fields_loop :: "libs \<Rightarrow> shape \<Rightarrow> Field list \<Rightarrow> err + shape" where
  "fields_loop L sh [] = Inr sh"
| "fields_loop L sh (f # fs) =
     (case field_step L sh f of
        Inl e \<Rightarrow> Inl e
      | Inr sh' \<Rightarrow> fields_loop L sh' fs)"

text \<open>
  \<open>fieldsToZodSchema\<close> (lines 592-622). \<open>z.object(shape)\<close> takes the fields of the
  contract from the own keys of \<open>shape\<close>.
\<close>

definition fieldsToZodSchema :: "libs \<Rightarrow> Field list \<Rightarrow> err + ztype" where
  "fieldsToZodSchema L fs =
     (case fields_loop L \<lparr>shape_own = Map.empty, shape_proto = None\<rparr> fs of
        Inl e \<Rightarrow> Inl e
      | Inr sh \<Rightarrow> Inr (ZObject (shape_own sh) False))"

text \<open>The parameters of one input item, as \<open>getNodeParameter\<close> returns them.\<close>

record item =
  operation :: jsstring
  cdpUrl :: jsstring
  enableCaching :: bool
  logMessages :: bool
  verbose :: int
  pageUrl :: jsstring
  instructions :: jsstring
  schemaSource :: jsstring
  fields_field :: "Field list"
  exampleJson :: jsstring
  jsonSchema :: jsstring
  manualZod :: jsstring
  maxSteps :: int
  agentContext :: jsstring

text \<open>The \<open>switch (schemaSource)\<close> of the extract operation (lines 463-491).\<close>

definition resolve_schema :: "libs \<Rightarrow> item \<Rightarrow> err + ztype" where
  "resolve_schema L it =
     (if schemaSource it = js ''fieldList'' then fieldsToZodSchema L (fields_field it)
      else if schemaSource it = js ''example'' then
        (case JSON_parse L (exampleJson it) of
           Inl e \<Rightarrow> Inl e
         | Inr example \<Rightarrow> jsonToZod L example)
      else if schemaSource it = js ''jsonSchema'' then
        (case JSON_parse L (jsonSchema it) of
           Inl e \<Rightarrow> Inl e
         | Inr schema \<Rightarrow> jsonSchemaToZod L schema)
      else if schemaSource it = js ''manual'' then evalZod L (manualZod it)
      else Inl (Error (js ''Unsupported schema source: '' @ schemaSource it)))"

section \<open>Usage aggregation\<close>

text \<open>
  A running total is a primitive value: the number it starts as, or the string it becomes
  once \<open>+=\<close> has concatenated.
\<close>

datatype jsprim = PNum jsnum | PStr jsstring

fun join_comma :: "jsstring list \<Rightarrow> jsstring" where
  "join_comma [] = []"
| "join_comma [s] = s"
| "join_comma (s # t # ss) = s @ js '','' @ join_comma (t # ss)"

text \<open>
  The string a JSON value converts to. An array joins the strings of its elements with
  commas, a \<open>null\<close> element giving the empty string. An object gives
  \<open>[object Object]\<close>, unless it has an own property \<open>toString\<close>: that property is not
  callable and hides the inherited method, and the conversion throws a TypeError.
\<close>

fun to_str :: "(jsnum \<Rightarrow> jsstring) \<Rightarrow> json \<Rightarrow> err + jsstring"
  and elems_str :: "(jsnum \<Rightarrow> jsstring) \<Rightarrow> json list \<Rightarrow> err + jsstring list" where
  "to_str ns JNull = Inr (js ''null'')"
| "to_str ns (JBool b) = Inr (if b then js ''true'' else js ''false'')"
| "to_str ns (JNum n) = Inr (ns n)"
| "to_str ns (JStr s) = Inr s"
| "to_str ns (JArr xs) =
     (case elems_str ns xs of
        Inl e \<Rightarrow> Inl e
      | Inr ss \<Rightarrow> Inr (join_comma ss))"
| "to_str ns (JObj kvs) =
     (if map_of kvs (js ''toString'') \<noteq> None
      then Inl (Error (js ''Cannot convert object to primitive value''))
      else Inr (js ''[object Object]''))"
| "elems_str ns [] = Inr []"
| "elems_str ns (x # xs) =
     (case (if x = JNull then Inr [] else to_str ns x) of
        Inl e \<Rightarrow> Inl e
      | Inr s \<Rightarrow>
          (case elems_str ns xs of
             Inl e \<Rightarrow> Inl e
           | Inr ss \<Rightarrow> Inr (s # ss)))"

text \<open>
  \<open>acc + v\<close> for a running total and a JSON value. A number and a number, a boolean or
  \<open>null\<close> add as numbers (\<open>true\<close> is 1, \<open>false\<close> and \<open>null\<close> are 0). A string
  on either side, or an array or an object on the right (they convert to strings),
  concatenates the strings of both sides.
\<close>

definition js_add :: "libs \<Rightarrow> jsprim \<Rightarrow> json \<Rightarrow> err + jsprim" where
  "js_add L acc v =
     (case acc of
        PNum a \<Rightarrow>
          (case v of
             JNum b \<Rightarrow> Inr (PNum (num_plus L a b))
           | JBool b \<Rightarrow> Inr (PNum (num_plus L a (if b then Finite 1 else Finite 0)))
           | JNull \<Rightarrow> Inr (PNum (num_plus L a (Finite 0)))
           | _ \<Rightarrow>
               (case to_str (num_str L) v of
                  Inl e \<Rightarrow> Inl e
                | Inr t \<Rightarrow> Inr (PStr (num_str L a @ t))))
      | PStr s \<Rightarrow>
          (case to_str (num_str L) v of
             Inl e \<Rightarrow> Inl e
           | Inr t \<Rightarrow> Inr (PStr (s @ t))))"

text \<open>\<open>u.snake || u.camel || 0\<close> for a truthy \<open>u\<close>.\<close>

definition counter :: "json \<Rightarrow> jsstring \<Rightarrow> jsstring \<Rightarrow> json" where
  "counter u snake camel =
     (case get_prop u snake of
        Some a \<Rightarrow> if truthy a then a
                  else (case get_prop u camel of
                          Some b \<Rightarrow> if truthy b then b else JNum (Finite 0)
                        | None \<Rightarrow> JNum (Finite 0))
      | None \<Rightarrow> (case get_prop u camel of
                   Some b \<Rightarrow> if truthy b then b else JNum (Finite 0)
                 | None \<Rightarrow> JNum (Finite 0)))"

record usage =
  prompt_tokens :: jsprim
  completion_tokens :: jsprim
  total_tokens :: jsprim

record usage_acc =
  totalPrompt :: jsprim
  totalCompletion :: jsprim
  totalTokens :: jsprim
  found :: bool

text \<open>\<open>msg.auxiliary?.response?.value\<close>.\<close>

definition response_value :: "LogLine \<Rightarrow> jsstring option" where
  "response_value msg =
     (case auxiliary msg of
        None \<Rightarrow> None
      | Some aux \<Rightarrow> (case aux (js ''response'') of
                      None \<Rightarrow> None
                    | Some e \<Rightarrow> Some (aux_value e)))"

text \<open>
  The three additions of lines 47-50, after \<open>found = true\<close>. An addition that throws
  leaves the \<open>try\<close> block: the totals added before it keep their new values, the others
  are not touched.
\<close>

definition add_counters :: "libs \<Rightarrow> usage_acc \<Rightarrow> json \<Rightarrow> usage_acc" where
  "add_counters L acc u =
     (let acc0 = acc\<lparr>found := True\<rparr> in
      case js_add L (totalPrompt acc)
             (counter u (js ''prompt_tokens'') (js ''promptTokens'')) of
        Inl _ \<Rightarrow> acc0
      | Inr p \<Rightarrow>
          (let acc1 = acc0\<lparr>totalPrompt := p\<rparr> in
           case js_add L (totalCompletion acc)
                  (counter u (js ''completion_tokens'') (js ''completionTokens'')) of
             Inl _ \<Rightarrow> acc1
           | Inr c \<Rightarrow>
               (let acc2 = acc1\<lparr>totalCompletion := c\<rparr> in
                case js_add L (totalTokens acc)
                       (counter u (js ''total_tokens'') (js ''totalTokens'')) of
                  Inl _ \<Rightarrow> acc2
                | Inr t \<Rightarrow> acc2\<lparr>totalTokens := t\<rparr>)))"

text \<open>
  The body of the loop of \<open>extractUsageFromMessages\<close> (lines 43-55). Everything that
  can throw sits inside the \<open>try\<close>: \<open>JSON.parse\<close> on malformed text, reading
  \<open>.usage\<close> of \<open>null\<close>, and an addition. The first two leave the accumulator as it
  was.
\<close>

definition usage_step :: "libs \<Rightarrow> usage_acc \<Rightarrow> LogLine \<Rightarrow> usage_acc" where
  "usage_step L acc msg =
     (if category msg = Some (js ''aisdk'') then
        (case response_value msg of
           None \<Rightarrow> acc
         | Some v \<Rightarrow>
             if v = [] then acc
             else (case JSON_parse L v of
                     Inl _ \<Rightarrow> acc
                   | Inr JNull \<Rightarrow> acc
                   | Inr parsed \<Rightarrow>
                       (case get_prop parsed (js ''usage'') of
                          None \<Rightarrow> acc
                        | Some u \<Rightarrow> if truthy u then add_counters L acc u else acc)))
      else acc)"

definition extractUsageFromMessages :: "libs \<Rightarrow> LogLine list \<Rightarrow> usage option" where
  "extractUsageFromMessages L messages =
     (let acc = foldl (usage_step L)
                  \<lparr>totalPrompt = PNum (Finite 0), totalCompletion = PNum (Finite 0),
                   totalTokens = PNum (Finite 0), found = False\<rparr> messages
      in if found acc
         then Some \<lparr>prompt_tokens = totalPrompt acc, completion_tokens = totalCompletion acc,
                    total_tokens = totalTokens acc\<rparr>
         else None)"


section \<open>The language model connection\<close>

text \<open>
  The object \<open>getInputConnectionData\<close> returns, if any: its namespace path and its
  \<open>model\<close> and \<open>apiKey\<close> properties (\<open>None\<close> when the property is missing).
\<close>

record chat_model =
  lc_namespace :: "jsstring list"
  model :: "json option"
  apiKey :: "json option"

text \<open>The five assertions before the loop (lines 378-382), with \<open>isChatInstance\<close>.\<close>

definition check_model :: "chat_model option \<Rightarrow> err + (jsstring list \<times> jsstring \<times> jsstring)" where
  "check_model conn =
     (case conn of
        None \<Rightarrow> Inl (Error (js ''A Chat Model is required''))
      | Some m \<Rightarrow>
          if js ''chat_models'' \<notin> set (lc_namespace m)
          then Inl (Error (js ''A Chat Model is required''))
          else (case model m of
                  None \<Rightarrow> Inl (Error (js ''Model is not defined in the input connection data''))
                | Some mv \<Rightarrow>
                    (case apiKey m of
                       None \<Rightarrow>
                         Inl (Error (js ''API Key is not defined in the input connection data''))
                     | Some kv \<Rightarrow>
                         (case mv of
                            JStr name \<Rightarrow>
                              (case kv of
                                 JStr key \<Rightarrow> Inr (lc_namespace m, name, key)
                               | _ \<Rightarrow> Inl (Error (js ''API Key must be a string'')))
                          | _ \<Rightarrow> Inl (Error (js ''Model must be a string''))))))"

text \<open>
  The combined model name (lines 393-398 and 415). \<open>lc_namespace[2]\<close> is \<open>undefined\<close>
  on a shorter path, which string concatenation prints as \<open>undefined\<close>.
\<close>

definition modelName_of :: "jsstring list \<Rightarrow> jsstring \<Rightarrow> jsstring" where
  "modelName_of ns name =
     (let p0 = (if 2 < length ns then Some (ns ! 2) else None);
          provider =
            (if p0 = Some (js ''google_genai'') \<or> p0 = Some (js ''google_vertexai'')
             then Some (js ''google'')
             else if includes_str name (js ''deepseek'') then Some (js ''deepseek'')
             else p0)
      in (case provider of None \<Rightarrow> js ''undefined'' | Some p \<Rightarrow> p) @ js ''/'' @ name)"

section \<open>The automation engine\<close>

text \<open>
  The options object given to the engine's constructor (lines 406-422). \<open>cfg_logger\<close>
  tells whether a log callback is installed.
\<close>

record session_cfg =
  cfg_enableCaching :: bool
  cfg_verbose :: int
  cfg_logger :: bool
  cfg_modelName :: jsstring
  cfg_apiKey :: jsstring
  cfg_cdpUrl :: jsstring

record agent_result =
  success :: bool
  agent_message :: jsstring
  completed :: bool
  actions :: "(jsstring \<times> json) list list"

text \<open>
  The engine is outside the repository. Each of its calls is a function of the engine's
  state \<open>'s\<close> that throws or returns, emits log lines and leaves a new state. Opening a
  session is \<open>init\<close>; \<open>page_url\<close> reads the current location.
\<close>

record 's engine =
  init :: "session_cfg \<Rightarrow> 's \<Rightarrow> (err + unit) \<times> LogLine list \<times> 's"
  page_goto :: "jsstring \<Rightarrow> 's \<Rightarrow> (err + unit) \<times> LogLine list \<times> 's"
  page_act :: "jsstring \<Rightarrow> 's \<Rightarrow> (err + json) \<times> LogLine list \<times> 's"
  page_extract :: "jsstring \<Rightarrow> ztype \<Rightarrow> 's \<Rightarrow> (err + json) \<times> LogLine list \<times> 's"
  page_observe :: "jsstring \<Rightarrow> 's \<Rightarrow> (err + json) \<times> LogLine list \<times> 's"
  agent_execute ::
    "jsstring \<Rightarrow> int \<Rightarrow> jsstring option \<Rightarrow> 's \<Rightarrow> (err + agent_result) \<times> LogLine list \<times> 's"
  page_url :: "'s \<Rightarrow> jsstring"
  close :: "'s \<Rightarrow> (err + unit) \<times> LogLine list \<times> 's"

text \<open>The calls the node makes to the engine, recorded in the order they are made.\<close>

datatype call =
    CInit session_cfg
  | CGoto jsstring
  | CAct jsstring
  | CExtract jsstring ztype
  | CObserve jsstring
  | CAgent jsstring int "jsstring option"
  | CClose

text \<open>The calls that carry out an operation, and the engine method each call names.\<close>

fun is_op_call :: "call \<Rightarrow> bool" where
  "is_op_call (CAct _) = True"
| "is_op_call (CExtract _ _) = True"
| "is_op_call (CObserve _) = True"
| "is_op_call (CAgent _ _ _) = True"
| "is_op_call _ = False"

fun call_name :: "call \<Rightarrow> string" where
  "call_name (CInit _) = ''init''"
| "call_name (CGoto _) = ''goto''"
| "call_name (CAct _) = ''act''"
| "call_name (CExtract _ _) = ''extract''"
| "call_name (CObserve _) = ''observe''"
| "call_name (CAgent _ _ _) = ''agent.execute''"
| "call_name CClose = ''close''"

text \<open>
  What one item's processing carries along: the \<open>messages\<close> buffer of the item, the calls
  made so far, and the engine's state.
\<close>

type_synonym 's st = "LogLine list \<times> call list \<times> 's"

abbreviation buffer_of :: "'s st \<Rightarrow> LogLine list" where
  "buffer_of s \<equiv> fst s"

abbreviation calls_of :: "'s st \<Rightarrow> call list" where
  "calls_of s \<equiv> fst (snd s)"

abbreviation world_of :: "'s st \<Rightarrow> 's" where
  "world_of s \<equiv> snd (snd s)"

text \<open>
  One awaited engine call. The engine hands each emitted log line to the callback when one
  is installed (\<open>messages.push(message)\<close>); without a callback the buffer is untouched.
\<close>

definition invoke ::
  "bool \<Rightarrow> call \<Rightarrow> ('s \<Rightarrow> (err + 'r) \<times> LogLine list \<times> 's) \<Rightarrow> 's st \<Rightarrow> (err + 'r) \<times> 's st" where
  "invoke lg c f s =
     (case s of (messages, tr, w) \<Rightarrow>
        (case f w of (r, emitted, w') \<Rightarrow>
           (r, (if lg then messages @ emitted else messages), tr @ [c], w')))"

section \<open>Output records\<close>

record simple_action =
  sa_type :: "json option"
  sa_reasoning :: "json option"
  sa_parameters :: "json option"
  sa_taskCompleted :: "json option"

datatype payload =
    ActPayload (results: "(jsstring \<times> json) list") (currentUrl: jsstring)
  | ResultPayload (result: json)
  | AgentPayload (ap_success: bool) (ap_message: jsstring) (ap_completed: bool)
      (ap_actions: "simple_action list") (actionCount: nat) (ap_usage: "usage option")
      (ap_currentUrl: jsstring)
  | NoPayload

record out_record =
  o_operation :: jsstring
  o_payload :: payload
  o_messages :: "out_message list option"
  o_error :: "err option"

text \<open>\<open>...(logMessages ? { messages: sanitizeMessages(messages) } : {})\<close>.\<close>

definition messages_field :: "libs \<Rightarrow> item \<Rightarrow> LogLine list \<Rightarrow> out_message list option" where
  "messages_field L it messages =
     (if logMessages it then Some (sanitizeMessages (JSON_stringify L) messages) else None)"

definition success_record :: "libs \<Rightarrow> item \<Rightarrow> payload \<Rightarrow> LogLine list \<Rightarrow> out_record" where
  "success_record L it p messages =
     \<lparr>o_operation = operation it, o_payload = p, o_messages = messages_field L it messages,
      o_error = None\<rparr>"

text \<open>The record pushed by the \<open>catch\<close> block (lines 569-577).\<close>

definition error_record :: "libs \<Rightarrow> item \<Rightarrow> err \<Rightarrow> LogLine list \<Rightarrow> out_record" where
  "error_record L it e messages =
     \<lparr>o_operation = operation it, o_payload = NoPayload,
      o_messages = messages_field L it messages,
      o_error = Some (Error (js ''Error executing Stagehand operation: '' @ err_message e))\<rparr>"

definition simplify_action :: "(jsstring \<times> json) list \<Rightarrow> simple_action" where
  "simplify_action action =
     \<lparr>sa_type = map_of action (js ''type''), sa_reasoning = map_of action (js ''reasoning''),
      sa_parameters = map_of action (js ''parameters''),
      sa_taskCompleted = map_of action (js ''taskCompleted'')\<rparr>"

section \<open>Operation dispatch\<close>

text \<open>
  The loop of the act operation (lines 440-444): one engine call per instruction, in list
  order, each result appended to \<open>actResults\<close>; a call that throws ends the loop.
\<close>

fun act_loop ::
  "'s engine \<Rightarrow> bool \<Rightarrow> jsstring list \<Rightarrow> (jsstring \<times> json) list \<Rightarrow> 's st
     \<Rightarrow> (err + (jsstring \<times> json) list) \<times> 's st" where
  "act_loop eng lg [] actResults s = (Inr actResults, s)"
| "act_loop eng lg (instruction # rest) actResults s =
     (case invoke lg (CAct instruction) (page_act eng instruction) s of
        (Inl e, s') \<Rightarrow> (Inl e, s')
      | (Inr r, s') \<Rightarrow> act_loop eng lg rest (actResults @ [(instruction, r)]) s')"

text \<open>
  The body of the \<open>try\<close> block (lines 434-567). \<open>Inl\<close> is an error thrown inside it;
  \<open>Inr\<close> is the record it pushes.
\<close>

definition dispatch :: "libs \<Rightarrow> 's engine \<Rightarrow> item \<Rightarrow> 's st \<Rightarrow> (err + out_record) \<times> 's st" where
  "dispatch L eng it s =
     (let lg = logMessages it in
      if operation it = js ''act'' then
        (case act_loop eng lg (act_instructions (instructions it)) [] s of
           (Inl e, s') \<Rightarrow> (Inl e, s')
         | (Inr actResults, s') \<Rightarrow>
             (Inr (success_record L it
                     (ActPayload actResults (page_url eng (world_of s'))) (buffer_of s')), s'))
      else if operation it = js ''extract'' then
        (let instruction = first_instruction (instructions it) in
         case resolve_schema L it of
           Inl e \<Rightarrow> (Inl e, s)
         | Inr schema \<Rightarrow>
             (case invoke lg (CExtract instruction schema)
                     (page_extract eng instruction schema) s of
                (Inl e, s') \<Rightarrow> (Inl e, s')
              | (Inr r, s') \<Rightarrow> (Inr (success_record L it (ResultPayload r) (buffer_of s')), s')))
      else if operation it = js ''observe'' then
        (let instruction = first_instruction (instructions it) in
         case invoke lg (CObserve instruction) (page_observe eng instruction) s of
           (Inl e, s') \<Rightarrow> (Inl e, s')
         | (Inr r, s') \<Rightarrow> (Inr (success_record L it (ResultPayload r) (buffer_of s')), s'))
      else if operation it = js ''agent'' then
        (let instruction = trim (instructions it);
             context = (if agentContext it \<noteq> [] then Some (agentContext it) else None) in
         case invoke lg (CAgent instruction (maxSteps it) context)
                (agent_execute eng instruction (maxSteps it) context) s of
           (Inl e, s') \<Rightarrow> (Inl e, s')
         | (Inr agentResult, s') \<Rightarrow>
             (let usage = extractUsageFromMessages L (buffer_of s');
                  simplifiedActions = map simplify_action (actions agentResult)
              in (Inr (success_record L it
                         (AgentPayload (success agentResult) (agent_message agentResult)
                            (completed agentResult) simplifiedActions
                            (length (actions agentResult)) usage
                            (page_url eng (world_of s')))
                         (buffer_of s')), s')))
      else (Inl (Error (js ''Unsupported operation: '' @ operation it)), s))"

section \<open>Processing one item and the batch\<close>

text \<open>
  What one pass of the loop over the items leaves behind: the error that escaped it, if
  any; the \<open>results\<close> array; the item's message buffer; the engine calls it made; the
  engine's state.
\<close>

record 's item_run =
  thrown :: "err option"
  results_after :: "out_record list"
  buffer :: "LogLine list"
  calls :: "call list"
  world :: "'s"

text \<open>
  The options of the session opened for an item (lines 406-422); \<open>mdl\<close> holds the
  namespace path, the model name and the API key of the checked connection.
\<close>

definition session_cfg_of :: "jsstring list \<times> jsstring \<times> jsstring \<Rightarrow> item \<Rightarrow> session_cfg" where
  "session_cfg_of mdl it =
     \<lparr>cfg_enableCaching = enableCaching it, cfg_verbose = verbose it,
      cfg_logger = logMessages it,
      cfg_modelName = modelName_of (fst mdl) (fst (snd mdl)),
      cfg_apiKey = snd (snd mdl), cfg_cdpUrl = cdpUrl it\<rparr>"

text \<open>
  One pass of the loop (lines 385-580). The session is opened and the page navigated
  before the \<open>try\<close> statement, so an error of either escapes the loop: nothing is
  pushed and \<open>close\<close> is not called. Inside the \<open>try\<close>, a thrown error is caught and
  pushed as an error record. The \<open>finally\<close> block then awaits \<open>close\<close>; an error of
  \<open>close\<close> escapes the loop as well.
\<close>

definition run_item ::
  "libs \<Rightarrow> 's engine \<Rightarrow> jsstring list \<times> jsstring \<times> jsstring \<Rightarrow> item \<Rightarrow> out_record list \<Rightarrow> 's
     \<Rightarrow> 's item_run" where
  "run_item L eng mdl it rs w =
     (let lg = logMessages it;
          cfg = session_cfg_of mdl it
      in (case invoke lg (CInit cfg) (init eng cfg) ([], [], w) of
            (Inl e, s1) \<Rightarrow>
              \<lparr>thrown = Some e, results_after = rs, buffer = buffer_of s1, calls = calls_of s1,
               world = world_of s1\<rparr>
          | (Inr _, s1) \<Rightarrow>
              (case (if pageUrl it \<noteq> []
                     then invoke lg (CGoto (pageUrl it)) (page_goto eng (pageUrl it)) s1
                     else (Inr (), s1)) of
                 (Inl e, s2) \<Rightarrow>
                   \<lparr>thrown = Some e, results_after = rs, buffer = buffer_of s2, calls = calls_of s2,
                    world = world_of s2\<rparr>
               | (Inr _, s2) \<Rightarrow>
                   (case dispatch L eng it s2 of
                      (d, s3) \<Rightarrow>
                        (case invoke lg CClose (close eng) s3 of
                           (c, s4) \<Rightarrow>
                             \<lparr>thrown = (case c of Inl e \<Rightarrow> Some e | Inr _ \<Rightarrow> None),
                              results_after =
                                rs @ [case d of
                                        Inr rec \<Rightarrow> rec
                                      | Inl e \<Rightarrow> error_record L it e (buffer_of s3)],
                              buffer = buffer_of s4, calls = calls_of s4,
                              world = world_of s4\<rparr>)))))"

text \<open>
  The loop over the items (line 384): strictly in order; an error that escapes one pass
  ends the loop and the run.
\<close>

fun item_loop ::
  "libs \<Rightarrow> 's engine \<Rightarrow> jsstring list \<times> jsstring \<times> jsstring \<Rightarrow> item list \<Rightarrow> out_record list
     \<Rightarrow> call list \<Rightarrow> 's \<Rightarrow> (err + out_record list) \<times> call list \<times> 's" where
  "item_loop L eng mdl [] rs tr w = (Inr rs, tr, w)"
| "item_loop L eng mdl (it # its) rs tr w =
     (let r = run_item L eng mdl it rs w
      in case thrown r of
           Some e \<Rightarrow> (Inl e, tr @ calls r, world r)
         | None \<Rightarrow> item_loop L eng mdl its (results_after r) (tr @ calls r) (world r))"

text \<open>
  \<open>execute\<close> (lines 373-584): \<open>Inl\<close> when the run fails with an error and returns no
  output, \<open>Inr\<close> with the output records otherwise; with the engine calls made and the
  engine's final state.
\<close>

definition execute ::
  "libs \<Rightarrow> 's engine \<Rightarrow> chat_model option \<Rightarrow> item list \<Rightarrow> 's
     \<Rightarrow> (err + out_record list) \<times> call list \<times> 's" where
  "execute L eng conn items w =
     (case check_model conn of
        Inl e \<Rightarrow> (Inl e, [], w)
      | Inr mdl \<Rightarrow> item_loop L eng mdl items [] [] w)"


section \<open>Usage aggregation as the specification words it\<close>









section \<open>A concrete environment for evaluation\<close>

definition usage_text_1 :: jsstring where
  "usage_text_1 = js ''{\"usage\":{\"prompt_tokens\":3,\"completion_tokens\":4,\"total_tokens\":7}}''"

definition usage_text_2 :: jsstring where
  "usage_text_2 = js ''{\"usage\":{\"promptTokens\":10,\"completionTokens\":20,\"totalTokens\":30}}''"

definition usage_text_3 :: jsstring where
  "usage_text_3 = js ''{\"usage\":{\"prompt_tokens\":\"5\"}}''"

definition usage_text_4 :: jsstring where
  "usage_text_4 = js ''{\"usage\":5}''"


text \<open>\<open>JSON.parse\<close> on the texts used below; any other text counts as malformed here.\<close>

definition test_parse :: "jsstring \<Rightarrow> err + json" where
  "test_parse s =
     (if s = usage_text_1 then
        Inr (JObj [(js ''usage'', JObj [(js ''prompt_tokens'', JNum (Finite 3)),
                                       (js ''completion_tokens'', JNum (Finite 4)),
                                       (js ''total_tokens'', JNum (Finite 7))])])
      else if s = usage_text_2 then
        Inr (JObj [(js ''usage'', JObj [(js ''promptTokens'', JNum (Finite 10)),
                                       (js ''completionTokens'', JNum (Finite 20)),
                                       (js ''totalTokens'', JNum (Finite 30))])])
      else if s = usage_text_3 then
        Inr (JObj [(js ''usage'', JObj [(js ''prompt_tokens'', JStr (js ''5''))])])
      else if s = usage_text_4 then Inr (JObj [(js ''usage'', JNum (Finite 5))])
      else if s = js ''\"abc\"'' then Inr (JStr (js ''abc''))
      else if s = js ''{\"title\":\"t\"}'' then Inr (JObj [(js ''title'', JStr (js ''t''))])
      else Inl (Error (js ''Unexpected end of JSON input'')))"

text \<open>A serialiser of log messages: category and message text between braces.\<close>

definition test_stringify :: "LogLine \<Rightarrow> jsstring" where
  "test_stringify msg =
     js ''{\"category\":\"'' @ (case category msg of None \<Rightarrow> [] | Some c \<Rightarrow> c)
       @ js ''\",\"message\":\"'' @ message msg @ js ''\"}''"

text \<open>
  The example-to-contract package on the two examples used below: the string \<open>abc\<close>
  gives a string contract, the object with the one string property \<open>title\<close> an object
  contract with that property. Other examples are not evaluated here.
\<close>

definition test_jsonToZod :: "json \<Rightarrow> err + ztype" where
  "test_jsonToZod v =
     (if v = JStr (js ''abc'') then Inr ZString
      else if v = JObj [(js ''title'', JStr (js ''t''))]
      then Inr (ZObject [js ''title'' \<mapsto> ZString] False)
      else Inl (Error (js ''not evaluated here'')))"

text \<open>
  Addition and printing on the numbers used below: finite numbers add exactly, which is
  what the language does on small integers; 0 and 5 print as their digit.
\<close>

fun test_plus :: "jsnum \<Rightarrow> jsnum \<Rightarrow> jsnum" where
  "test_plus (Finite a) (Finite b) = Finite (a + b)"
| "test_plus _ _ = NaN"

definition test_num_str :: "jsnum \<Rightarrow> jsstring" where
  "test_num_str n =
     (if n = Finite 0 then js ''0'' else if n = Finite 5 then js ''5'' else js ''?'')"

text \<open>Every contract object of the package inherits the getter \<open>description\<close>.\<close>

definition test_libs :: libs where
  "test_libs =
     \<lparr>JSON_parse = test_parse, JSON_stringify = test_stringify,
      jsonToZod = test_jsonToZod,
      jsonSchemaToZod = (\<lambda>v. Inl (Error (js ''unsupported''))),
      evalZod = (\<lambda>t. Inl (Error (js ''unsupported''))),
      num_plus = test_plus, num_str = test_num_str,
      getter_only = (\<lambda>z k. if k = js ''description''
                             then Some (Error (js ''Cannot set property description''))
                             else None)\<rparr>"

definition usage_line :: "jsstring \<Rightarrow> LogLine" where
  "usage_line payload =
     \<lparr>category = Some (js ''aisdk''), message = js ''response'', level = Some 1,
      auxiliary = Some [js ''response'' \<mapsto> \<lparr>aux_value = payload, aux_type = js ''object''\<rparr>]\<rparr>"

definition plain_line :: "jsstring \<Rightarrow> LogLine" where
  "plain_line text =
     \<lparr>category = Some (js ''action''), message = text, level = Some 1, auxiliary = None\<rparr>"

text \<open>
  An engine whose state is the connection URL of the open session. Opening fails for
  \<open>ws://down\<close>, navigation fails for \<open>https://unreachable\<close>, the instruction
  \<open>Click missing\<close> fails, and closing fails for the session opened on \<open>ws://flaky\<close>.
  Every model call emits a usage line.
\<close>

definition test_engine :: "jsstring engine" where
  "test_engine =
     \<lparr>init = (\<lambda>cfg w. if cfg_cdpUrl cfg = js ''ws://down''
                        then (Inl (Error (js ''connect ECONNREFUSED'')), [], w)
                        else (Inr (), [plain_line (js ''connected'')], cfg_cdpUrl cfg)),
      page_goto = (\<lambda>u w. if u = js ''https://unreachable''
                          then (Inl (Error (js ''net::ERR_NAME_NOT_RESOLVED'')), [], w)
                          else (Inr (), [], w)),
      page_act = (\<lambda>i w. if i = js ''Click missing''
                         then (Inl (Error (js ''element not found'')), [usage_line usage_text_1], w)
                         else (Inr (JStr (js ''done'')), [usage_line usage_text_1], w)),
      page_extract = (\<lambda>i c w. (Inr (JObj []), [usage_line usage_text_1], w)),
      page_observe = (\<lambda>i w. (Inr (JArr []), [usage_line usage_text_1], w)),
      agent_execute = (\<lambda>i n c w.
         (Inr \<lparr>success = True, agent_message = js ''finished'', completed = True,
               actions = [[(js ''type'', JStr (js ''click'')),
                           (js ''screenshot'', JStr (js ''...''))]]\<rparr>,
          [usage_line usage_text_1, usage_line usage_text_2], w)),
      page_url = (\<lambda>w. js ''https://example.com/''),
      close = (\<lambda>w. if w = js ''ws://flaky''
                     then (Inl (Error (js ''close failed'')), [], w)
                     else (Inr (), [], w))\<rparr>"

definition test_model :: chat_model where
  "test_model =
     \<lparr>lc_namespace = [js ''langchain'', js ''chat_models'', js ''openai''],
      model = Some (JStr (js ''gpt'')), apiKey = Some (JStr (js ''key''))\<rparr>"

definition test_item :: "jsstring \<Rightarrow> jsstring \<Rightarrow> jsstring \<Rightarrow> jsstring \<Rightarrow> bool \<Rightarrow> item" where
  "test_item op cdp page instr lg =
     \<lparr>operation = op, cdpUrl = cdp, enableCaching = True, logMessages = lg, verbose = 0,
      pageUrl = page, instructions = instr, schemaSource = js ''example'', fields_field = [],
      exampleJson = js ''{\"title\":\"t\"}'', jsonSchema = [], manualZod = [], maxSteps = 10,
      agentContext = []\<rparr>"

text \<open>The checked connection and the items used in the evaluations below.\<close>

definition test_mdl :: "jsstring list \<times> jsstring \<times> jsstring" where
  "test_mdl = ([js ''langchain'', js ''chat_models'', js ''openai''], js ''gpt'', js ''key'')"

definition ok_item :: item where
  "ok_item = test_item (js ''act'') (js ''ws://ok'') [] (js ''Click A'') False"

definition down_item :: item where
  "down_item = test_item (js ''act'') (js ''ws://down'') [] (js ''Click A'') False"

definition flaky_item :: item where
  "flaky_item = test_item (js ''act'') (js ''ws://flaky'') [] (js ''Click A'') False"

definition unreachable_item :: item where
  "unreachable_item =
     test_item (js ''act'') (js ''ws://ok'') (js ''https://unreachable'') (js ''Click A'') False"

definition agent_item :: "bool \<Rightarrow> item" where
  "agent_item lg = test_item (js ''agent'') (js ''ws://ok'') [] (js ''Book a flight'') lg"

section \<open>Lines and instructions\<close>



lemma split_nl_no_newline: "l \<in> set (split_nl s) \<Longrightarrow> 0xA \<notin> set l"
  by (induction s arbitrary: l) (auto split: list.splits if_splits)


lemma trim_spec:
  "\<exists>a b. l = a @ trim l @ b \<and> (\<forall>c \<in> set a. is_ws c) \<and> (\<forall>c \<in> set b. is_ws c)
          \<and> (trim l \<noteq> [] \<longrightarrow> \<not> is_ws (hd (trim l)) \<and> \<not> is_ws (last (trim l)))"
proof -
  let ?a = "takeWhile is_ws l"
  let ?t = "dropWhile is_ws l"
  let ?b = "rev (takeWhile is_ws (rev ?t))"
  have tr: "trim l = rev (dropWhile is_ws (rev ?t))" by (simp add: trim_def)
  have "?t = rev (rev ?t)" by simp
  also have "\<dots> = rev (takeWhile is_ws (rev ?t) @ dropWhile is_ws (rev ?t))"
    by (simp only: takeWhile_dropWhile_id)
  also have "\<dots> = rev (dropWhile is_ws (rev ?t)) @ ?b"
    by (simp only: rev_append)
  finally have t: "?t = trim l @ ?b" by (simp only: tr)
  have l: "l = ?a @ trim l @ ?b" using t takeWhile_dropWhile_id[of is_ws l] by simp
  have a: "\<forall>c \<in> set ?a. is_ws c" by (auto dest: set_takeWhileD)
  have b: "\<forall>c \<in> set ?b. is_ws c" by (auto dest: set_takeWhileD)
  have e: "\<not> is_ws (hd (trim l)) \<and> \<not> is_ws (last (trim l))" if ne: "trim l \<noteq> []"
  proof -
    from ne tr have d: "dropWhile is_ws (rev ?t) \<noteq> []" by simp
    then have "\<not> is_ws (hd (dropWhile is_ws (rev ?t)))" by (rule hd_dropWhile)
    with d tr have last: "\<not> is_ws (last (trim l))" by (simp add: last_rev)
    from ne t have "?t \<noteq> []" by (metis Nil_is_append_conv)
    then have "\<not> is_ws (hd ?t)" by (rule hd_dropWhile)
    moreover from ne t have "hd ?t = hd (trim l)" by (metis hd_append2)
    ultimately show ?thesis using last by simp
  qed
  from l a b e show ?thesis by blast
qed

section \<open>The act operation\<close>

lemma act_loop_trace:
  "act_loop eng lg ins acc s = (Inr rs, s') \<Longrightarrow>
     calls_of s' = calls_of s @ map CAct ins \<and> map fst rs = map fst acc @ ins"
proof (induction ins arbitrary: acc s)
  case Nil
  then show ?case by simp
next
  case (Cons i ins)
  then show ?case
    by (auto simp: invoke_def split: prod.splits sum.splits)
qed

lemma invoke_trace: "invoke lg c f s = (r, s1) \<Longrightarrow> calls_of s1 = calls_of s @ [c]"
  by (auto simp: invoke_def split: prod.splits)

lemma act_loop_trace_fail:
  "act_loop eng lg ins acc s = (Inl e, s') \<Longrightarrow>
     \<exists>k < length ins. calls_of s' = calls_of s @ map CAct (take (Suc k) ins)"
proof (induction ins arbitrary: acc s)
  case Nil
  then show ?case by simp
next
  case (Cons i ins)
  obtain r s1 where inv: "invoke lg (CAct i) (page_act eng i) s = (r, s1)"
    by (cases "invoke lg (CAct i) (page_act eng i) s") auto
  have tr1: "calls_of s1 = calls_of s @ [CAct i]"
    by (rule invoke_trace[OF inv])
  show ?case
  proof (cases r)
    case (Inl e')
    with inv Cons.prems have "s' = s1" by simp
    with tr1 show ?thesis by (intro exI[of _ 0]) simp
  next
    case (Inr v)
    with inv Cons.prems have "act_loop eng lg ins (acc @ [(i, v)]) s1 = (Inl e, s')" by simp
    from Cons.IH[OF this] obtain k where k: "k < length ins"
      "calls_of s' = calls_of s1 @ map CAct (take (Suc k) ins)" by blast
    with tr1 show ?thesis by (intro exI[of _ "Suc k"]) simp
  qed
qed

lemma split_nl_join: "concat (map (\<lambda>l. 0xA # l) (split_nl s)) = 0xA # s"
  by (induction s) (auto split: list.splits)

lemma invoke_eq:
  "invoke lg c f s =
     (case f (world_of s) of
        (r, em, w') \<Rightarrow> (r, buffer_of s @ (if lg then em else []), calls_of s @ [c], w'))"
  by (cases s) (auto simp: invoke_def split: prod.splits)

lemma act_loop_success:
  "act_loop eng lg ins acc s = (Inr res, s') \<Longrightarrow>
     \<exists>ws ems vs. length ws = Suc (length ins) \<and> length ems = length ins
       \<and> length vs = length ins \<and> ws ! 0 = world_of s
       \<and> (\<forall>k < length ins.
             page_act eng (ins ! k) (ws ! k) = (Inr (vs ! k), ems ! k, ws ! Suc k))
       \<and> s' = (buffer_of s @ (if lg then concat ems else []), calls_of s @ map CAct ins,
               ws ! length ins)
       \<and> res = acc @ zip ins vs"
proof (induction ins arbitrary: acc s)
  case Nil
  then have "s' = s" "res = acc" by simp_all
  then show ?case
    by (intro exI[of _ "[world_of s]"] exI[of _ "[]"]) simp
next
  case (Cons i ins)
  obtain r em w1 where pa: "page_act eng i (world_of s) = (r, em, w1)"
    by (cases "page_act eng i (world_of s)") auto
  let ?s1 = "(buffer_of s @ (if lg then em else []), calls_of s @ [CAct i], w1)"
  from pa have inv: "invoke lg (CAct i) (page_act eng i) s = (r, ?s1)"
    by (simp add: invoke_eq)
  from Cons.prems inv obtain v where r: "r = Inr v"
    by (cases r) auto
  from Cons.prems inv r have rest: "act_loop eng lg ins (acc @ [(i, v)]) ?s1 = (Inr res, s')"
    by simp
  from Cons.IH[OF rest] obtain ws ems vs where
    len: "length ws = Suc (length ins)" "length ems = length ins" "length vs = length ins"
    and w0: "ws ! 0 = w1"
    and steps: "\<forall>k < length ins.
             page_act eng (ins ! k) (ws ! k) = (Inr (vs ! k), ems ! k, ws ! Suc k)"
    and fin: "s' = (buffer_of ?s1 @ (if lg then concat ems else []),
                    calls_of ?s1 @ map CAct ins, ws ! length ins)"
    and res: "res = (acc @ [(i, v)]) @ zip ins vs"
    by auto
  let ?ws = "world_of s # ws" and ?ems = "em # ems" and ?vs = "v # vs"
  have st: "\<forall>k < length (i # ins).
      page_act eng ((i # ins) ! k) (?ws ! k) = (Inr (?vs ! k), ?ems ! k, ?ws ! Suc k)"
  proof (intro allI impI)
    fix k assume k: "k < length (i # ins)"
    show "page_act eng ((i # ins) ! k) (?ws ! k) = (Inr (?vs ! k), ?ems ! k, ?ws ! Suc k)"
    proof (cases k)
      case 0
      with pa r w0 show ?thesis by simp
    next
      case (Suc j)
      with k steps show ?thesis by simp
    qed
  qed
  have f: "s' = (buffer_of s @ (if lg then concat ?ems else []),
                 calls_of s @ map CAct (i # ins), ?ws ! length (i # ins))"
    using fin by simp
  have rs: "res = acc @ zip (i # ins) ?vs" using res by simp
  from len st f rs show ?case
    by (intro exI[of _ ?ws] exI[of _ ?ems] exI[of _ ?vs]) simp
qed

lemma act_loop_failure:
  "act_loop eng lg ins acc s = (Inl e, s') \<Longrightarrow>
     \<exists>k < length ins. \<exists>ws ems vs em. length ws = Suc k \<and> length ems = k \<and> length vs = k
       \<and> ws ! 0 = world_of s
       \<and> (\<forall>j < k. page_act eng (ins ! j) (ws ! j) = (Inr (vs ! j), ems ! j, ws ! Suc j))
       \<and> page_act eng (ins ! k) (ws ! k) = (Inl e, em, world_of s')
       \<and> buffer_of s' = buffer_of s @ (if lg then concat ems @ em else [])
       \<and> calls_of s' = calls_of s @ map CAct (take (Suc k) ins)"
proof (induction ins arbitrary: acc s)
  case Nil
  then show ?case by simp
next
  case (Cons i ins)
  obtain r em w1 where pa: "page_act eng i (world_of s) = (r, em, w1)"
    by (cases "page_act eng i (world_of s)") auto
  let ?s1 = "(buffer_of s @ (if lg then em else []), calls_of s @ [CAct i], w1)"
  from pa have inv: "invoke lg (CAct i) (page_act eng i) s = (r, ?s1)"
    by (simp add: invoke_eq)
  show ?case
  proof (cases r)
    case (Inl e')
    with Cons.prems inv have "e' = e" "s' = ?s1" by simp_all
    with pa Inl show ?thesis
      by (intro exI[of _ 0] conjI exI[of _ "[world_of s]"] exI[of _ "[]"] exI[of _ em]) simp_all
  next
    case (Inr v)
    with Cons.prems inv have rest: "act_loop eng lg ins (acc @ [(i, v)]) ?s1 = (Inl e, s')"
      by simp
    from Cons.IH[OF rest] obtain k ws ems vs em' where k: "k < length ins"
      and len: "length ws = Suc k" "length ems = k" "length vs = k"
      and w0: "ws ! 0 = w1"
      and steps: "\<forall>j < k. page_act eng (ins ! j) (ws ! j) = (Inr (vs ! j), ems ! j, ws ! Suc j)"
      and last: "page_act eng (ins ! k) (ws ! k) = (Inl e, em', world_of s')"
      and buf: "buffer_of s' = buffer_of ?s1 @ (if lg then concat ems @ em' else [])"
      and cs: "calls_of s' = calls_of ?s1 @ map CAct (take (Suc k) ins)"
      by auto
    let ?ws = "world_of s # ws" and ?ems = "em # ems" and ?vs = "v # vs"
    have st: "\<forall>j < Suc k.
        page_act eng ((i # ins) ! j) (?ws ! j) = (Inr (?vs ! j), ?ems ! j, ?ws ! Suc j)"
    proof (intro allI impI)
      fix j assume j: "j < Suc k"
      show "page_act eng ((i # ins) ! j) (?ws ! j) = (Inr (?vs ! j), ?ems ! j, ?ws ! Suc j)"
      proof (cases j)
        case 0
        with pa Inr w0 show ?thesis by simp
      next
        case (Suc j')
        with j steps show ?thesis by simp
      qed
    qed
    have la: "page_act eng ((i # ins) ! Suc k) (?ws ! Suc k) = (Inl e, em', world_of s')"
      using last by simp
    have bu: "buffer_of s' = buffer_of s @ (if lg then concat ?ems @ em' else [])"
      using buf by simp
    have ca: "calls_of s' = calls_of s @ map CAct (take (Suc (Suc k)) (i # ins))"
      using cs by simp
    from k len st la bu ca show ?thesis
      by (intro exI[of _ "Suc k"] conjI exI[of _ ?ws] exI[of _ ?ems] exI[of _ ?vs]
          exI[of _ em']) simp_all
  qed
qed

text \<open>
  Claim C5. For an item whose operation is act, the instruction list is the block split on
  line feeds (the lines joined by line feeds give the block back, and no line holds a line
  feed), each line trimmed (what is cut off at both ends is white space, and what is left
  neither starts nor ends with white space), empty lines dropped. The instructions are run
  against the session strictly in sequence: there is a chain of session states, starting
  at the state the operation found, in which every instruction is run by the session's
  \<open>act\<close> on the state its predecessor left. When all succeed, the pairs collected are the
  instructions, in order, each with the result \<open>act\<close> returned for it, and the record
  reports the location of the last state. When one throws, it is the first that does, the
  error is the one it threw, and no later instruction is run. The block \<open>Click A\<close>,
  empty line, \<open>Type B\<close> yields exactly the two instructions, also when the lines carry
  blanks around them.
\<close>

theorem act_runs_instructions_in_sequence:
  assumes "operation it = js ''act''"
  shows "act_instructions (instructions it) =
           filter (\<lambda>l. l \<noteq> []) (map trim (split_nl (instructions it)))
    \<and> concat (map (\<lambda>l. 0xA # l) (split_nl (instructions it))) = 0xA # instructions it
    \<and> (\<forall>l \<in> set (split_nl (instructions it)). 0xA \<notin> set l)
    \<and> (\<forall>l. \<exists>a b. l = a @ trim l @ b \<and> (\<forall>c \<in> set a. is_ws c) \<and> (\<forall>c \<in> set b. is_ws c)
              \<and> (trim l \<noteq> [] \<longrightarrow> \<not> is_ws (hd (trim l)) \<and> \<not> is_ws (last (trim l))))
    \<and> (\<forall>rec s'. dispatch L eng it s = (Inr rec, s') \<longrightarrow>
          (\<exists>ws ems vs.
             length ws = Suc (length (act_instructions (instructions it)))
             \<and> length ems = length (act_instructions (instructions it))
             \<and> length vs = length (act_instructions (instructions it))
             \<and> ws ! 0 = world_of s
             \<and> (\<forall>k < length (act_instructions (instructions it)).
                   page_act eng (act_instructions (instructions it) ! k) (ws ! k) =
                     (Inr (vs ! k), ems ! k, ws ! Suc k))
             \<and> s' = (buffer_of s @ (if logMessages it then concat ems else []),
                     calls_of s @ map CAct (act_instructions (instructions it)),
                     ws ! length (act_instructions (instructions it)))
             \<and> rec = success_record L it
                       (ActPayload (zip (act_instructions (instructions it)) vs)
                          (page_url eng (ws ! length (act_instructions (instructions it)))))
                       (buffer_of s')))
    \<and> (\<forall>e s'. dispatch L eng it s = (Inl e, s') \<longrightarrow>
          (\<exists>k < length (act_instructions (instructions it)). \<exists>ws ems vs em.
             length ws = Suc k \<and> length ems = k \<and> length vs = k
             \<and> ws ! 0 = world_of s
             \<and> (\<forall>j < k. page_act eng (act_instructions (instructions it) ! j) (ws ! j) =
                          (Inr (vs ! j), ems ! j, ws ! Suc j))
             \<and> page_act eng (act_instructions (instructions it) ! k) (ws ! k) =
                 (Inl e, em, world_of s')
             \<and> buffer_of s' = buffer_of s @ (if logMessages it then concat ems @ em else [])
             \<and> calls_of s' =
                 calls_of s @ map CAct (take (Suc k) (act_instructions (instructions it)))))
    \<and> act_instructions (js ''Click A\<newline>\<newline>Type B\<newline>'') = [js ''Click A'', js ''Type B'']
    \<and> act_instructions (js ''  Click A  \<newline>   \<newline> Type B \<newline>'') = [js ''Click A'', js ''Type B'']"
proof -
  let ?ins = "act_instructions (instructions it)"
  have d: "dispatch L eng it s =
     (case act_loop eng (logMessages it) ?ins [] s of
        (Inl e, s') \<Rightarrow> (Inl e, s')
      | (Inr actResults, s') \<Rightarrow>
          (Inr (success_record L it (ActPayload actResults (page_url eng (world_of s')))
                  (buffer_of s')), s'))"
    using assms by (simp add: dispatch_def)
  obtain r s1 where al: "act_loop eng (logMessages it) ?ins [] s = (r, s1)"
    by (cases "act_loop eng (logMessages it) ?ins [] s") auto
  have ok: "\<exists>ws ems vs.
             length ws = Suc (length ?ins) \<and> length ems = length ?ins \<and> length vs = length ?ins
             \<and> ws ! 0 = world_of s
             \<and> (\<forall>k < length ?ins.
                   page_act eng (?ins ! k) (ws ! k) = (Inr (vs ! k), ems ! k, ws ! Suc k))
             \<and> s' = (buffer_of s @ (if logMessages it then concat ems else []),
                     calls_of s @ map CAct ?ins, ws ! length ?ins)
             \<and> rec = success_record L it
                       (ActPayload (zip ?ins vs) (page_url eng (ws ! length ?ins)))
                       (buffer_of s')"
    if dr: "dispatch L eng it s = (Inr rec, s')" for rec s'
  proof -
    from dr d al obtain rs where r: "r = Inr rs" and s1: "s1 = s'"
      and rec: "rec = success_record L it (ActPayload rs (page_url eng (world_of s')))
                  (buffer_of s')"
      by (cases r) auto
    from act_loop_success[of eng "logMessages it" ?ins "[]" s rs s'] al r s1
    obtain ws ems vs where
      len: "length ws = Suc (length ?ins)" "length ems = length ?ins" "length vs = length ?ins"
      and w0: "ws ! 0 = world_of s"
      and steps: "\<forall>k < length ?ins.
             page_act eng (?ins ! k) (ws ! k) = (Inr (vs ! k), ems ! k, ws ! Suc k)"
      and fin: "s' = (buffer_of s @ (if logMessages it then concat ems else []),
                      calls_of s @ map CAct ?ins, ws ! length ?ins)"
      and res: "rs = [] @ zip ?ins vs"
      by blast
    from fin have "world_of s' = ws ! length ?ins" by simp
    with rec res have "rec = success_record L it
                       (ActPayload (zip ?ins vs) (page_url eng (ws ! length ?ins)))
                       (buffer_of s')" by simp
    with len w0 steps fin show ?thesis by blast
  qed
  have bad: "\<exists>k < length ?ins. \<exists>ws ems vs em.
             length ws = Suc k \<and> length ems = k \<and> length vs = k
             \<and> ws ! 0 = world_of s
             \<and> (\<forall>j < k. page_act eng (?ins ! j) (ws ! j) = (Inr (vs ! j), ems ! j, ws ! Suc j))
             \<and> page_act eng (?ins ! k) (ws ! k) = (Inl e, em, world_of s')
             \<and> buffer_of s' = buffer_of s @ (if logMessages it then concat ems @ em else [])
             \<and> calls_of s' = calls_of s @ map CAct (take (Suc k) ?ins)"
    if dl: "dispatch L eng it s = (Inl e, s')" for e s'
  proof -
    from dl d al have "r = Inl e" and "s1 = s'"
      by (cases r; auto)+
    with al have "act_loop eng (logMessages it) ?ins [] s = (Inl e, s')" by simp
    from act_loop_failure[OF this] show ?thesis .
  qed
  have a: "?ins = filter (\<lambda>l. l \<noteq> []) (map trim (split_nl (instructions it)))"
    by (simp add: act_instructions_def)
  have b: "\<forall>l \<in> set (split_nl (instructions it)). 0xA \<notin> set l"
    using split_nl_no_newline by blast
  have t: "\<forall>l. \<exists>a b. l = a @ trim l @ b \<and> (\<forall>c \<in> set a. is_ws c) \<and> (\<forall>c \<in> set b. is_ws c)
              \<and> (trim l \<noteq> [] \<longrightarrow> \<not> is_ws (hd (trim l)) \<and> \<not> is_ws (last (trim l)))"
    using trim_spec by blast
  have c1: "act_instructions (js ''Click A\<newline>\<newline>Type B\<newline>'') = [js ''Click A'', js ''Type B'']"
    by (simp add: act_instructions_def js_def trim_def is_ws_def)
  have c2: "act_instructions (js ''  Click A  \<newline>   \<newline> Type B \<newline>'') = [js ''Click A'', js ''Type B'']"
    by (simp add: act_instructions_def js_def trim_def is_ws_def)
  from a split_nl_join[of "instructions it"] b t ok bad c1 c2 show ?thesis
    by (intro conjI allI impI) blast+
qed

theorem act_runs_instructions_in_sequence_witness:
  "operation (test_item (js ''act'') (js ''ws://ok'') [] (js ''Click A\<newline>\<newline>Type B\<newline>'') False) = js ''act''
   \<and> calls_of (snd (dispatch test_libs test_engine
        (test_item (js ''act'') (js ''ws://ok'') [] (js ''Click A\<newline>\<newline>Type B\<newline>'') False)
        ([], [], js ''ws://ok''))) = [CAct (js ''Click A''), CAct (js ''Type B'')]
   \<and> fst (dispatch test_libs test_engine
        (test_item (js ''act'') (js ''ws://ok'') [] (js ''Click A\<newline>\<newline>Type B\<newline>'') False)
        ([], [], js ''ws://ok''))
     = Inr \<lparr>o_operation = js ''act'',
            o_payload = ActPayload [(js ''Click A'', JStr (js ''done'')),
                                    (js ''Type B'', JStr (js ''done''))]
                          (js ''https://example.com/''),
            o_messages = None, o_error = None\<rparr>"
proof -
  let ?it = "test_item (js ''act'') (js ''ws://ok'') [] (js ''Click A\<newline>\<newline>Type B\<newline>'') False"
  let ?rec = "\<lparr>o_operation = js ''act'',
            o_payload = ActPayload [(js ''Click A'', JStr (js ''done'')),
                                    (js ''Type B'', JStr (js ''done''))]
                          (js ''https://example.com/''),
            o_messages = None, o_error = None\<rparr>"
  have op: "operation ?it = js ''act''" by (simp add: test_item_def)
  have ins: "instructions ?it = js ''Click A\<newline>\<newline>Type B\<newline>''" by (simp add: test_item_def)
  have ev: "fst (dispatch test_libs test_engine ?it ([], [], js ''ws://ok'')) = Inr ?rec"
    by (simp add: dispatch_def op ins act_instructions_def js_def trim_def is_ws_def
        invoke_def test_engine_def test_item_def success_record_def messages_field_def)
  note th = act_runs_instructions_in_sequence[OF op, where L = test_libs and eng = test_engine
        and s = "([], [], js ''ws://ok'')"]
  from th have ex: "act_instructions (js ''Click A\<newline>\<newline>Type B\<newline>'') = [js ''Click A'', js ''Type B'']"
    by blast
  obtain r s' where d: "dispatch test_libs test_engine ?it ([], [], js ''ws://ok'') = (r, s')"
    by (cases "dispatch test_libs test_engine ?it ([], [], js ''ws://ok'')") auto
  with ev have r: "r = Inr ?rec" by simp
  from th d r obtain ws ems vs where
    "s' = (buffer_of ([], [], js ''ws://ok'') @ (if logMessages ?it then concat ems else []),
           calls_of ([], [], js ''ws://ok'') @ map CAct (act_instructions (instructions ?it)),
           ws ! length (act_instructions (instructions ?it)))"
    by blast
  then have "calls_of s' = map CAct (act_instructions (instructions ?it))" by simp
  with ins ex d op ev show ?thesis by simp
qed

section \<open>The instruction of extract and observe\<close>







section \<open>The output filter\<close>

lemma includes_str_sublist: "includes_str s t \<longleftrightarrow> sublist t s"
  by (induction s) (auto simp: sublist_Cons_right)

text \<open>
  Claim C7. For every sequence of log messages and every serialiser, the messages that
  \<open>sanitizeMessages\<close> retains form a subsequence of the input, in the input's order.
  A message whose serialised form contains \<open>image\<close> or \<open>screenshot\<close>, or is longer
  than 5000 code units, is not retained; every retained message has neither marker and a
  serialised form shorter than 5000. The output is the retained messages, each projected to
  its category, message and level.
\<close>

theorem sanitizeMessages_filters:
  "sanitizeMessages stringify messages = map project (filter (keeps stringify) messages)
   \<and> subseq (filter (keeps stringify) messages) messages
   \<and> (\<forall>m \<in> set messages.
         sublist (js ''image'') (stringify m) \<or> sublist (js ''screenshot'') (stringify m)
           \<or> 5000 < length (stringify m)
         \<longrightarrow> m \<notin> set (filter (keeps stringify) messages))
   \<and> (\<forall>m \<in> set (filter (keeps stringify) messages).
         \<not> sublist (js ''image'') (stringify m) \<and> \<not> sublist (js ''screenshot'') (stringify m)
         \<and> length (stringify m) < 5000)
   \<and> (\<forall>m. om_category (project m) = category m \<and> om_message (project m) = message m
         \<and> om_level (project m) = level m)"
  by (auto simp: sanitizeMessages_def keeps_def project_def includes_str_sublist Let_def)

theorem sanitizeMessages_filters_witness:
  "plain_line (js ''took screenshot'') \<in>
     set [plain_line (js ''clicked''), plain_line (js ''took screenshot''),
          plain_line (js ''done'')]
   \<and> sublist (js ''screenshot'') (test_stringify (plain_line (js ''took screenshot'')))
   \<and> plain_line (js ''took screenshot'') \<notin>
     set (filter (keeps test_stringify)
       [plain_line (js ''clicked''), plain_line (js ''took screenshot''),
        plain_line (js ''done'')])
   \<and> sanitizeMessages test_stringify
       [plain_line (js ''clicked''), plain_line (js ''took screenshot''),
        plain_line (js ''done'')]
     = [project (plain_line (js ''clicked'')), project (plain_line (js ''done''))]"
proof -
  let ?ms = "[plain_line (js ''clicked''), plain_line (js ''took screenshot''),
          plain_line (js ''done'')]"
  have m: "plain_line (js ''took screenshot'') \<in> set ?ms" by simp
  have inc: "includes_str (test_stringify (plain_line (js ''took screenshot''))) (js ''screenshot'')"
    by (simp add: test_stringify_def plain_line_def js_def)
  then have sub: "sublist (js ''screenshot'') (test_stringify (plain_line (js ''took screenshot'')))"
    by (simp add: includes_str_sublist)
  note th = sanitizeMessages_filters[of test_stringify ?ms]
  from th m sub have ex: "plain_line (js ''took screenshot'') \<notin> set (filter (keeps test_stringify) ?ms)"
    by blast
  have k1: "keeps test_stringify (plain_line (js ''clicked''))"
    by (simp add: keeps_def test_stringify_def plain_line_def js_def)
  have k3: "keeps test_stringify (plain_line (js ''done''))"
    by (simp add: keeps_def test_stringify_def plain_line_def js_def)
  from ex k1 k3 have f: "filter (keeps test_stringify) ?ms =
      [plain_line (js ''clicked''), plain_line (js ''done'')]"
    by (auto split: if_splits)
  from th have "sanitizeMessages test_stringify ?ms = map project (filter (keeps test_stringify) ?ms)"
    by blast
  with f have "sanitizeMessages test_stringify ?ms =
      [project (plain_line (js ''clicked'')), project (plain_line (js ''done''))]" by simp
  with m sub ex show ?thesis by blast
qed

section \<open>Usage aggregation\<close>





















section \<open>The field-list schema source\<close>

lemma field_step_plain:
  assumes "fieldName f \<noteq> js ''__proto__''" "shape_proto sh = None"
  shows "field_step L sh f = Inr (sh\<lparr>shape_own := (shape_own sh)(fieldName f \<mapsto> field_entry f)\<rparr>)"
  using assms by (simp add: field_step_def shape_set_def field_entry_def Let_def)

lemma fields_loop_plain:
  assumes "js ''__proto__'' \<notin> fieldName ` set fs" "shape_proto sh = None"
  shows "\<exists>sh'. fields_loop L sh fs = Inr sh' \<and> shape_proto sh' = None
           \<and> dom (shape_own sh') = dom (shape_own sh) \<union> fieldName ` set fs
           \<and> (\<forall>k. k \<notin> fieldName ` set fs \<longrightarrow> shape_own sh' k = shape_own sh k)
           \<and> (distinct (map fieldName fs) \<longrightarrow>
                 (\<forall>f \<in> set fs. shape_own sh' (fieldName f) = Some (field_entry f)))"
  using assms
proof (induction fs arbitrary: sh)
  case Nil
  then show ?case by simp
next
  case (Cons g fs)
  let ?sh1 = "sh\<lparr>shape_own := (shape_own sh)(fieldName g \<mapsto> field_entry g)\<rparr>"
  from Cons.prems have g: "fieldName g \<noteq> js ''__proto__''"
    and rest: "js ''__proto__'' \<notin> fieldName ` set fs" by auto
  from field_step_plain[OF g Cons.prems(2)] have st: "field_step L sh g = Inr ?sh1" .
  have p1: "shape_proto ?sh1 = None" using Cons.prems(2) by simp
  from Cons.IH[OF rest p1] obtain sh' where
    run: "fields_loop L ?sh1 fs = Inr sh'" and pr: "shape_proto sh' = None"
    and dm: "dom (shape_own sh') = dom (shape_own ?sh1) \<union> fieldName ` set fs"
    and oth: "\<forall>k. k \<notin> fieldName ` set fs \<longrightarrow> shape_own sh' k = shape_own ?sh1 k"
    and val: "distinct (map fieldName fs) \<longrightarrow>
                 (\<forall>f \<in> set fs. shape_own sh' (fieldName f) = Some (field_entry f))"
    by blast
  have 1: "fields_loop L sh (g # fs) = Inr sh'" using st run by simp
  have 2: "dom (shape_own sh') = dom (shape_own sh) \<union> fieldName ` set (g # fs)"
    using dm by auto
  have 3: "\<forall>k. k \<notin> fieldName ` set (g # fs) \<longrightarrow> shape_own sh' k = shape_own sh k"
    using oth by auto
  have 4: "distinct (map fieldName (g # fs)) \<longrightarrow>
                 (\<forall>f \<in> set (g # fs). shape_own sh' (fieldName f) = Some (field_entry f))"
  proof
    assume d: "distinct (map fieldName (g # fs))"
    then have "fieldName g \<notin> fieldName ` set fs" by auto
    with oth have "shape_own sh' (fieldName g) = Some (field_entry g)" by simp
    moreover from d val have "\<forall>f \<in> set fs. shape_own sh' (fieldName f) = Some (field_entry f)"
      by simp
    ultimately show "\<forall>f \<in> set (g # fs). shape_own sh' (fieldName f) = Some (field_entry f)"
      by simp
  qed
  from 1 pr 2 3 4 show ?case by blast
qed

text \<open>
  For descriptors with distinct names, none of them \<open>__proto__\<close>, the contract has
  exactly the given field names, each with the type of its kind, optional iff so marked.
\<close>

lemma fieldsToZodSchema_fields:
  assumes "distinct (map fieldName fs)" "js ''__proto__'' \<notin> fieldName ` set fs"
  shows "\<exists>shape. fieldsToZodSchema L fs = Inr (ZObject shape False)
           \<and> dom shape = fieldName ` set fs
           \<and> (\<forall>f \<in> set fs. shape (fieldName f) = Some (field_entry f))"
proof -
  from fields_loop_plain[OF assms(2), of "\<lparr>shape_own = Map.empty, shape_proto = None\<rparr>" L]
  obtain sh' where "fields_loop L \<lparr>shape_own = Map.empty, shape_proto = None\<rparr> fs = Inr sh'"
    "dom (shape_own sh') = fieldName ` set fs"
    "distinct (map fieldName fs) \<longrightarrow>
       (\<forall>f \<in> set fs. shape_own sh' (fieldName f) = Some (field_entry f))"
    by auto
  with assms(1) show ?thesis by (simp add: fieldsToZodSchema_def)
qed

lemma field_ztype_kinds:
  "field_ztype (js ''string'') = ZString"
  "field_ztype (js ''number'') = ZNumber"
  "field_ztype (js ''boolean'') = ZBoolean"
  "field_ztype (js ''array'') = ZArray ZAny"
  "field_ztype (js ''object'') = ZObject Map.empty True"
  "t \<notin> {js ''string'', js ''number'', js ''boolean'', js ''array'', js ''object''}
     \<Longrightarrow> field_ztype t = ZAny"
  by (simp_all add: field_ztype_def js_def)

text \<open>
  Claim C8 at the descriptor list holding the single required string field named
  \<open>__proto__\<close>: the name is unique and non-empty, and the contract built has no field.
\<close>

theorem fieldsToZodSchema_proto_field:
  "fieldsToZodSchema test_libs
     [\<lparr>fieldName = js ''__proto__'', fieldType = js ''string'', optional = False\<rparr>]
     = Inr (ZObject Map.empty False)"
  by (simp add: fieldsToZodSchema_def field_step_def shape_set_def)

text \<open>
  Once the prototype of the shape is a contract object, a field named after a getter that
  contract objects inherit makes the assignment throw.
\<close>

lemma fieldsToZodSchema_getter_after_proto:
  "fieldsToZodSchema test_libs
     [\<lparr>fieldName = js ''__proto__'', fieldType = js ''string'', optional = False\<rparr>,
      \<lparr>fieldName = js ''description'', fieldType = js ''string'', optional = False\<rparr>]
     = Inl (Error (js ''Cannot set property description''))"
  by (simp add: fieldsToZodSchema_def field_step_def shape_set_def test_libs_def js_def)

section \<open>The example-value schema source\<close>




section \<open>Items processed without the log option\<close>

lemma invoke_buffer_off: "invoke False c f s = (r, s') \<Longrightarrow> buffer_of s' = buffer_of s"
  by (auto simp: invoke_def split: prod.splits)

lemma act_loop_buffer_off:
  "act_loop eng False ins acc s = (r, s') \<Longrightarrow> buffer_of s' = buffer_of s"
proof (induction ins arbitrary: acc s)
  case Nil
  then show ?case by simp
next
  case (Cons i ins)
  obtain r1 s1 where inv: "invoke False (CAct i) (page_act eng i) s = (r1, s1)"
    by (cases "invoke False (CAct i) (page_act eng i) s") auto
  from invoke_buffer_off[OF inv] have b: "buffer_of s1 = buffer_of s" .
  show ?case
  proof (cases r1)
    case (Inl e)
    with inv Cons.prems b show ?thesis by simp
  next
    case (Inr v)
    with inv Cons.prems have "act_loop eng False ins (acc @ [(i, v)]) s1 = (r, s')" by simp
    from Cons.IH[OF this] b show ?thesis by simp
  qed
qed

lemma dispatch_buffer_off:
  assumes "\<not> logMessages it"
  shows "buffer_of (snd (dispatch L eng it s)) = buffer_of s"
proof -
  have act: "buffer_of (snd (case act_loop eng False ins [] s of
           (Inl e, s') \<Rightarrow> (Inl e, s')
         | (Inr actResults, s') \<Rightarrow> (Inr (g actResults s'), s'))) = buffer_of s" for ins g
    using act_loop_buffer_off[of eng ins "[]" s]
    by (cases "act_loop eng False ins [] s") (auto split: sum.splits)
  have inv: "buffer_of (snd (case invoke False c f s of
           (Inl e, s') \<Rightarrow> (Inl e, s')
         | (Inr r, s') \<Rightarrow> (Inr (g r s'), s'))) = buffer_of s" for c f g
    using invoke_buffer_off[of c f s]
    by (cases "invoke False c f s") (auto split: sum.splits)
  show ?thesis
    using assms unfolding dispatch_def Let_def
    by (simp add: act inv split: sum.splits)
qed

section \<open>The calls and records of one item\<close>

lemma act_loop_calls:
  assumes "act_loop eng lg ins acc s = (r, s')"
  shows "\<exists>cs. calls_of s' = calls_of s @ cs \<and> list_all is_op_call cs"
proof (cases r)
  case (Inl e)
  with assms act_loop_trace_fail[of eng lg ins acc s e s']
  obtain k where "calls_of s' = calls_of s @ map CAct (take (Suc k) ins)" by blast
  moreover have "list_all is_op_call (map CAct (take (Suc k) ins))"
    by (simp add: list_all_iff)
  ultimately show ?thesis by blast
next
  case (Inr rs)
  with assms act_loop_trace[of eng lg ins acc s rs s']
  have "calls_of s' = calls_of s @ map CAct ins" by blast
  moreover have "list_all is_op_call (map CAct ins)"
    by (simp add: list_all_iff)
  ultimately show ?thesis by blast
qed

lemma snd_case_result:
  "snd (case p of (Inl e, s') \<Rightarrow> (Inl e, s') | (Inr r, s') \<Rightarrow> (Inr (g r s'), s')) = snd p"
  by (cases p) (auto split: sum.splits)

lemma invoke_op_calls:
  assumes "is_op_call c"
  shows "\<exists>cs. calls_of (snd (invoke lg c f s)) = calls_of s @ cs \<and> list_all is_op_call cs"
proof -
  obtain r s' where inv: "invoke lg c f s = (r, s')" by (cases "invoke lg c f s") auto
  from invoke_trace[OF inv] assms inv show ?thesis by simp
qed

lemma dispatch_calls:
  "\<exists>cs. calls_of (snd (dispatch L eng it s)) = calls_of s @ cs \<and> list_all is_op_call cs"
proof -
  have A: "\<exists>cs. calls_of (snd (act_loop eng lg ins [] s)) = calls_of s @ cs \<and> list_all is_op_call cs"
    for lg ins
    using act_loop_calls[of eng lg ins "[]" s] by (cases "act_loop eng lg ins [] s") auto
  have N: "\<exists>cs. calls_of s = calls_of s @ cs \<and> list_all is_op_call cs"
    by (intro exI[of _ "[]"]) simp
  show ?thesis
    unfolding dispatch_def Let_def
    using A N
    by (simp add: snd_case_result invoke_op_calls split: sum.splits)
qed

lemma run_item_open_failed:
  assumes "invoke (logMessages it) (CInit (session_cfg_of mdl it)) (init eng (session_cfg_of mdl it))
             ([], [], w) = (Inl e, s1)"
  shows "run_item L eng mdl it rs w =
           \<lparr>thrown = Some e, results_after = rs, buffer = buffer_of s1, calls = calls_of s1,
            world = world_of s1\<rparr>"
  using assms by (simp add: run_item_def Let_def)

lemma run_item_goto_failed:
  assumes "invoke (logMessages it) (CInit (session_cfg_of mdl it)) (init eng (session_cfg_of mdl it))
             ([], [], w) = (Inr u1, s1)"
    and "(if pageUrl it \<noteq> []
          then invoke (logMessages it) (CGoto (pageUrl it)) (page_goto eng (pageUrl it)) s1
          else (Inr (), s1)) = (Inl e, s2)"
  shows "run_item L eng mdl it rs w =
           \<lparr>thrown = Some e, results_after = rs, buffer = buffer_of s2, calls = calls_of s2,
            world = world_of s2\<rparr>"
  using assms by (simp add: run_item_def Let_def)

lemma run_item_dispatched:
  assumes "invoke (logMessages it) (CInit (session_cfg_of mdl it)) (init eng (session_cfg_of mdl it))
             ([], [], w) = (Inr u1, s1)"
    and "(if pageUrl it \<noteq> []
          then invoke (logMessages it) (CGoto (pageUrl it)) (page_goto eng (pageUrl it)) s1
          else (Inr (), s1)) = (Inr u2, s2)"
    and "dispatch L eng it s2 = (d, s3)"
    and "invoke (logMessages it) CClose (close eng) s3 = (c, s4)"
  shows "run_item L eng mdl it rs w =
           \<lparr>thrown = (case c of Inl e \<Rightarrow> Some e | Inr _ \<Rightarrow> None),
            results_after = rs @ [case d of Inr rec \<Rightarrow> rec
                                  | Inl e \<Rightarrow> error_record L it e (buffer_of s3)],
            buffer = buffer_of s4, calls = calls_of s4, world = world_of s4\<rparr>"
  using assms by (simp add: run_item_def Let_def)


lemma dispatch_success_record:
  assumes "dispatch L eng it s = (Inr rec, s')"
  shows "\<exists>p. rec = success_record L it p (buffer_of s')
           \<and> (\<forall>a b c d n u l. p = AgentPayload a b c d n u l \<longrightarrow>
                  u = extractUsageFromMessages L (buffer_of s'))"
  using assms unfolding dispatch_def Let_def
  by (auto split: if_splits prod.splits sum.splits)

text \<open>
  Claim C10. For every item processed with the log option off, whatever the engine does:
  the options of the session opened for it carry no log callback; the item's message
  buffer is empty when the item is done, and so at every moment before, since the buffer
  only grows; and a record pushed for the item has no messages field and, when it carries
  an agent payload, a usage field that is absent.
\<close>

theorem logging_disabled_no_usage:
  assumes "\<not> logMessages it"
  shows "buffer (run_item L eng mdl it rs w) = []
    \<and> (\<forall>cfg. CInit cfg \<in> set (calls (run_item L eng mdl it rs w)) \<longrightarrow> \<not> cfg_logger cfg)
    \<and> (\<forall>rec \<in> set (drop (length rs) (results_after (run_item L eng mdl it rs w))).
          o_messages rec = None
          \<and> (\<forall>a b c d n u l. o_payload rec = AgentPayload a b c d n u l \<longrightarrow> u = None))"
proof -
  let ?cfg = "session_cfg_of mdl it"
  let ?P = "\<lambda>r. buffer r = []
    \<and> (\<forall>cfg. CInit cfg \<in> set (calls r) \<longrightarrow> \<not> cfg_logger cfg)
    \<and> (\<forall>rec \<in> set (drop (length rs) (results_after r)).
          o_messages rec = None
          \<and> (\<forall>a b c d n u l. o_payload rec = AgentPayload a b c d n u l \<longrightarrow> u = None))"
  have lgc: "\<not> cfg_logger ?cfg" using assms by (simp add: session_cfg_of_def)
  obtain r1 s1 where i1: "invoke (logMessages it) (CInit ?cfg) (init eng ?cfg) ([], [], w) = (r1, s1)"
    by (cases "invoke (logMessages it) (CInit ?cfg) (init eng ?cfg) ([], [], w)") auto
  from i1 assms have i1': "invoke False (CInit ?cfg) (init eng ?cfg) ([], [], w) = (r1, s1)"
    by simp
  from invoke_buffer_off[OF i1'] have b1: "buffer_of s1 = []" by simp
  from invoke_trace[OF i1] have c1: "calls_of s1 = [CInit ?cfg]" by simp
  show ?thesis
  proof (cases r1)
    case (Inl e)
    with i1 have "run_item L eng mdl it rs w =
           \<lparr>thrown = Some e, results_after = rs, buffer = buffer_of s1, calls = calls_of s1,
            world = world_of s1\<rparr>" by (simp add: run_item_open_failed)
    with b1 c1 lgc show ?thesis by simp
  next
    case (Inr u1)
    obtain r2 s2 where i2: "(if pageUrl it \<noteq> []
          then invoke (logMessages it) (CGoto (pageUrl it)) (page_goto eng (pageUrl it)) s1
          else (Inr (), s1)) = (r2, s2)"
      by (cases "(if pageUrl it \<noteq> []
          then invoke (logMessages it) (CGoto (pageUrl it)) (page_goto eng (pageUrl it)) s1
          else (Inr (), s1))") auto
    have b2: "buffer_of s2 = []"
    proof (cases "pageUrl it \<noteq> []")
      case True
      with i2 assms have "invoke False (CGoto (pageUrl it)) (page_goto eng (pageUrl it)) s1 = (r2, s2)"
        by simp
      from invoke_buffer_off[OF this] b1 show ?thesis by simp
    next
      case False
      with i2 b1 show ?thesis by auto
    qed
    have c2: "calls_of s2 = [CInit ?cfg] \<or> calls_of s2 = [CInit ?cfg, CGoto (pageUrl it)]"
    proof (cases "pageUrl it \<noteq> []")
      case True
      with i2 have "invoke (logMessages it) (CGoto (pageUrl it)) (page_goto eng (pageUrl it)) s1 = (r2, s2)"
        by simp
      from invoke_trace[OF this] c1 show ?thesis by simp
    next
      case False
      with i2 c1 show ?thesis by auto
    qed
    show ?thesis
    proof (cases r2)
      case (Inl e)
      with i1 i2 Inr have "run_item L eng mdl it rs w =
           \<lparr>thrown = Some e, results_after = rs, buffer = buffer_of s2, calls = calls_of s2,
            world = world_of s2\<rparr>" by (simp add: run_item_goto_failed)
      with b2 c2 lgc show ?thesis by auto
    next
      case u2: (Inr u2)
      obtain d s3 where dd: "dispatch L eng it s2 = (d, s3)"
        by (cases "dispatch L eng it s2") auto
      obtain c s4 where cc: "invoke (logMessages it) CClose (close eng) s3 = (c, s4)"
        by (cases "invoke (logMessages it) CClose (close eng) s3") auto
      from dispatch_buffer_off[OF assms, of L eng s2] dd b2 have b3: "buffer_of s3 = []" by simp
      from cc assms have "invoke False CClose (close eng) s3 = (c, s4)" by simp
      from invoke_buffer_off[OF this] b3 have b4: "buffer_of s4 = []" by simp
      from dispatch_calls[of L eng it s2] dd obtain cs where
        c3: "calls_of s3 = calls_of s2 @ cs" "list_all is_op_call cs" by auto
      from invoke_trace[OF cc] have c4: "calls_of s4 = calls_of s3 @ [CClose]" .
      have noinit: "CInit cfg \<notin> set cs" for cfg
        using c3(2) by (auto simp: list_all_iff)
      let ?rec = "case d of Inr rec \<Rightarrow> rec | Inl e \<Rightarrow> error_record L it e (buffer_of s3)"
      have run: "run_item L eng mdl it rs w =
           \<lparr>thrown = (case c of Inl e \<Rightarrow> Some e | Inr _ \<Rightarrow> None),
            results_after = rs @ [?rec],
            buffer = buffer_of s4, calls = calls_of s4, world = world_of s4\<rparr>"
        using i1 i2 Inr u2 dd cc by (simp add: run_item_dispatched)
      have rec: "o_messages ?rec = None
          \<and> (\<forall>a b c d n u l. o_payload ?rec = AgentPayload a b c d n u l \<longrightarrow> u = None)"
      proof (cases d)
        case (Inl e)
        with assms show ?thesis by (simp add: error_record_def messages_field_def)
      next
        case (Inr rec)
        with dd dispatch_success_record[of L eng it s2 rec s3] obtain p where
          p: "rec = success_record L it p (buffer_of s3)"
          "\<forall>a b c d n u l. p = AgentPayload a b c d n u l \<longrightarrow>
                  u = extractUsageFromMessages L (buffer_of s3)" by auto
        have "extractUsageFromMessages L [] = None"
          by (simp add: extractUsageFromMessages_def)
        with p b3 assms Inr show ?thesis
          by (simp add: success_record_def messages_field_def)
      qed
      from run b4 c4 c3 c2 noinit lgc rec show ?thesis by auto
    qed
  qed
qed


lemmas eval_defs = run_item_def session_cfg_of_def modelName_of_def invoke_def test_engine_def
  dispatch_def act_instructions_def first_instruction_def trim_def is_ws_def test_item_def
  success_record_def error_record_def messages_field_def test_mdl_def Let_def

lemma run_agent_off:
  "run_item test_libs test_engine test_mdl (agent_item False) [] [] =
     \<lparr>thrown = None,
      results_after =
        [\<lparr>o_operation = js ''agent'',
          o_payload = AgentPayload True (js ''finished'') True
             [\<lparr>sa_type = Some (JStr (js ''click'')), sa_reasoning = None, sa_parameters = None,
               sa_taskCompleted = None\<rparr>] 1 None (js ''https://example.com/''),
          o_messages = None, o_error = None\<rparr>],
      buffer = [],
      calls = [CInit (session_cfg_of test_mdl (agent_item False)),
               CAgent (js ''Book a flight'') 10 None, CClose],
      world = js ''ws://ok''\<rparr>"
  by (simp add: eval_defs agent_item_def simplify_action_def extractUsageFromMessages_def js_def)


theorem logging_disabled_no_usage_witness:
  "\<not> logMessages (agent_item False)
   \<and> buffer (run_item test_libs test_engine test_mdl (agent_item False) [] []) = []
   \<and> map call_name (calls (run_item test_libs test_engine test_mdl (agent_item False) [] []))
       = [''init'', ''agent.execute'', ''close'']
   \<and> map (\<lambda>rec. ap_usage (o_payload rec))
         (results_after (run_item test_libs test_engine test_mdl (agent_item False) [] []))
       = [None]"
proof -
  have off: "\<not> logMessages (agent_item False)" by (simp add: agent_item_def test_item_def)
  from logging_disabled_no_usage[OF off, of test_libs test_engine test_mdl "[]" "[]"]
  have b: "buffer (run_item test_libs test_engine test_mdl (agent_item False) [] []) = []"
    by blast
  from off b show ?thesis by (simp add: run_agent_off)
qed

section \<open>Failures of close\<close>

text \<open>
  When the session of an item was opened, the page navigated and the operation dispatched,
  and \<open>close\<close> then throws: the record of the item has been pushed, the error of
  \<open>close\<close> escapes the pass, and the loop over the items ends with it.
\<close>

lemma close_error_escapes:
  assumes "invoke (logMessages it) (CInit (session_cfg_of mdl it)) (init eng (session_cfg_of mdl it))
             ([], [], w) = (Inr u1, s1)"
    and "(if pageUrl it \<noteq> []
          then invoke (logMessages it) (CGoto (pageUrl it)) (page_goto eng (pageUrl it)) s1
          else (Inr (), s1)) = (Inr u2, s2)"
    and "dispatch L eng it s2 = (d, s3)"
    and "close eng (world_of s3) = (Inl e, em, w4)"
  shows "thrown (run_item L eng mdl it rs w) = Some e
    \<and> results_after (run_item L eng mdl it rs w) =
        rs @ [case d of Inr rec \<Rightarrow> rec | Inl e' \<Rightarrow> error_record L it e' (buffer_of s3)]
    \<and> calls (run_item L eng mdl it rs w) = calls_of s3 @ [CClose]
    \<and> item_loop L eng mdl (it # its) rs tr w = (Inl e, tr @ calls_of s3 @ [CClose], w4)"
proof -
  let ?s4 = "(buffer_of s3 @ (if logMessages it then em else []), calls_of s3 @ [CClose], w4)"
  from assms(4) have cc: "invoke (logMessages it) CClose (close eng) s3 = (Inl e, ?s4)"
    by (simp add: invoke_eq)
  from run_item_dispatched[OF assms(1) assms(2) assms(3) cc, of rs]
  have run: "run_item L eng mdl it rs w =
           \<lparr>thrown = Some e,
            results_after = rs @ [case d of Inr rec \<Rightarrow> rec
                                  | Inl e' \<Rightarrow> error_record L it e' (buffer_of s3)],
            buffer = buffer_of ?s4, calls = calls_of ?s4, world = world_of ?s4\<rparr>"
    by simp
  then show ?thesis by (simp add: Let_def)
qed

lemma check_test_model: "check_model (Some test_model) = Inr test_mdl"
  by (simp add: check_model_def test_model_def test_mdl_def js_def)

lemma run_ok_item:
  "run_item test_libs test_engine test_mdl ok_item rs w =
     \<lparr>thrown = None,
      results_after = rs @
        [\<lparr>o_operation = js ''act'',
          o_payload = ActPayload [(js ''Click A'', JStr (js ''done''))] (js ''https://example.com/''),
          o_messages = None, o_error = None\<rparr>],
      buffer = [],
      calls = [CInit (session_cfg_of test_mdl ok_item), CAct (js ''Click A''), CClose],
      world = js ''ws://ok''\<rparr>"
  by (simp add: eval_defs ok_item_def js_def)

lemma run_down_item:
  "run_item test_libs test_engine test_mdl down_item rs w =
     \<lparr>thrown = Some (Error (js ''connect ECONNREFUSED'')), results_after = rs, buffer = [],
      calls = [CInit (session_cfg_of test_mdl down_item)], world = w\<rparr>"
  by (simp add: eval_defs down_item_def js_def)

lemma run_unreachable_item:
  "run_item test_libs test_engine test_mdl unreachable_item rs w =
     \<lparr>thrown = Some (Error (js ''net::ERR_NAME_NOT_RESOLVED'')), results_after = rs, buffer = [],
      calls = [CInit (session_cfg_of test_mdl unreachable_item), CGoto (js ''https://unreachable'')],
      world = js ''ws://ok''\<rparr>"
  by (simp add: eval_defs unreachable_item_def js_def)

lemma run_flaky_item:
  "run_item test_libs test_engine test_mdl flaky_item rs w =
     \<lparr>thrown = Some (Error (js ''close failed'')),
      results_after = rs @
        [\<lparr>o_operation = js ''act'',
          o_payload = ActPayload [(js ''Click A'', JStr (js ''done''))] (js ''https://example.com/''),
          o_messages = None, o_error = None\<rparr>],
      buffer = [],
      calls = [CInit (session_cfg_of test_mdl flaky_item), CAct (js ''Click A''), CClose],
      world = js ''ws://flaky''\<rparr>"
  by (simp add: eval_defs flaky_item_def js_def)

text \<open>
  Claim C3 at a batch of two act items where closing the first item's session throws. The
  record of the first item has been pushed, with its payload and no error, when
  \<open>close\<close> is awaited; the error of \<open>close\<close> is not caught, so it escapes the loop:
  the run fails with it and returns no output, not even the record already determined, and
  the second item is never opened.
\<close>

theorem close_failure_aborts_batch:
  "results_after (run_item test_libs test_engine test_mdl flaky_item [] [])
     = [\<lparr>o_operation = js ''act'',
         o_payload = ActPayload [(js ''Click A'', JStr (js ''done''))] (js ''https://example.com/''),
         o_messages = None, o_error = None\<rparr>]
   \<and> thrown (run_item test_libs test_engine test_mdl flaky_item [] [])
     = Some (Error (js ''close failed''))
   \<and> fst (execute test_libs test_engine (Some test_model) [flaky_item, ok_item] [])
     = Inl (Error (js ''close failed''))
   \<and> map call_name
        (fst (snd (execute test_libs test_engine (Some test_model) [flaky_item, ok_item] [])))
     = [''init'', ''act'', ''close'']"
  by (simp add: execute_def check_test_model run_flaky_item)

section \<open>Failures before the try statement\<close>

lemma count_no_close: "list_all is_op_call cs \<Longrightarrow> count_list cs CClose = 0"
  by (induction cs) auto

lemma run_item_summary:
  "(\<exists>e. thrown (run_item L eng mdl it rs w) = Some e
        \<and> results_after (run_item L eng mdl it rs w) = rs
        \<and> CClose \<notin> set (calls (run_item L eng mdl it rs w)))
   \<or> (\<exists>rec. results_after (run_item L eng mdl it rs w) = rs @ [rec]
        \<and> o_operation rec = operation it
        \<and> count_list (calls (run_item L eng mdl it rs w)) CClose = 1
        \<and> last (calls (run_item L eng mdl it rs w)) = CClose)"
proof -
  let ?cfg = "session_cfg_of mdl it"
  obtain r1 s1 where i1: "invoke (logMessages it) (CInit ?cfg) (init eng ?cfg) ([], [], w) = (r1, s1)"
    by (cases "invoke (logMessages it) (CInit ?cfg) (init eng ?cfg) ([], [], w)") auto
  from invoke_trace[OF i1] have c1: "calls_of s1 = [CInit ?cfg]" by simp
  show ?thesis
  proof (cases r1)
    case (Inl e1)
    with i1 have "run_item L eng mdl it rs w =
           \<lparr>thrown = Some e1, results_after = rs, buffer = buffer_of s1, calls = calls_of s1,
            world = world_of s1\<rparr>" by (simp add: run_item_open_failed)
    with c1 show ?thesis by simp
  next
    case (Inr u1)
    obtain r2 s2 where i2: "(if pageUrl it \<noteq> []
          then invoke (logMessages it) (CGoto (pageUrl it)) (page_goto eng (pageUrl it)) s1
          else (Inr (), s1)) = (r2, s2)"
      by (cases "(if pageUrl it \<noteq> []
          then invoke (logMessages it) (CGoto (pageUrl it)) (page_goto eng (pageUrl it)) s1
          else (Inr (), s1))") auto
    have c2: "calls_of s2 = [CInit ?cfg] \<or> calls_of s2 = [CInit ?cfg, CGoto (pageUrl it)]"
    proof (cases "pageUrl it \<noteq> []")
      case True
      with i2 have "invoke (logMessages it) (CGoto (pageUrl it)) (page_goto eng (pageUrl it)) s1 = (r2, s2)"
        by simp
      from invoke_trace[OF this] c1 show ?thesis by simp
    next
      case False
      with i2 c1 show ?thesis by auto
    qed
    show ?thesis
    proof (cases r2)
      case (Inl e2)
      with i1 i2 Inr have "run_item L eng mdl it rs w =
           \<lparr>thrown = Some e2, results_after = rs, buffer = buffer_of s2, calls = calls_of s2,
            world = world_of s2\<rparr>" by (simp add: run_item_goto_failed)
      with c2 show ?thesis by auto
    next
      case u2: (Inr u2)
      obtain d s3 where dd: "dispatch L eng it s2 = (d, s3)"
        by (cases "dispatch L eng it s2") auto
      obtain c s4 where cc: "invoke (logMessages it) CClose (close eng) s3 = (c, s4)"
        by (cases "invoke (logMessages it) CClose (close eng) s3") auto
      from dispatch_calls[of L eng it s2] dd obtain cs where
        c3: "calls_of s3 = calls_of s2 @ cs" "list_all is_op_call cs" by auto
      from invoke_trace[OF cc] have c4: "calls_of s4 = calls_of s3 @ [CClose]" .
      let ?rec = "case d of Inr rec \<Rightarrow> rec | Inl e \<Rightarrow> error_record L it e (buffer_of s3)"
      have run: "run_item L eng mdl it rs w =
           \<lparr>thrown = (case c of Inl e \<Rightarrow> Some e | Inr _ \<Rightarrow> None),
            results_after = rs @ [?rec],
            buffer = buffer_of s4, calls = calls_of s4, world = world_of s4\<rparr>"
        using i1 i2 Inr u2 dd cc by (simp add: run_item_dispatched)
      have op: "o_operation ?rec = operation it"
      proof (cases d)
        case (Inl e)
        then show ?thesis by (simp add: error_record_def)
      next
        case (Inr rec)
        with dd dispatch_success_record[of L eng it s2 rec s3] obtain p where
          "rec = success_record L it p (buffer_of s3)" by auto
        with Inr show ?thesis by (simp add: success_record_def)
      qed
      have cnt: "count_list (calls_of s4) CClose = 1"
        using c2 c3 c4 count_no_close[OF c3(2)] by auto
      from run op cnt c4 show ?thesis by simp
    qed
  qed
qed

text \<open>
  When an item's processing lets no error escape, its session was closed exactly once, as
  the last call; when nothing was pushed for the item, its session was never closed.
\<close>

lemma close_once_when_completed:
  assumes "thrown (run_item L eng mdl it rs w) = None"
  shows "count_list (calls (run_item L eng mdl it rs w)) CClose = 1
         \<and> last (calls (run_item L eng mdl it rs w)) = CClose"
  using run_item_summary[of L eng mdl it rs w] assms by auto

lemma no_close_when_nothing_pushed:
  assumes "results_after (run_item L eng mdl it rs w) = rs"
  shows "CClose \<notin> set (calls (run_item L eng mdl it rs w))"
  using run_item_summary[of L eng mdl it rs w] assms by auto

text \<open>
  When the run returns, it returns one record per item, in the order of the items.
\<close>

lemma item_loop_records:
  "item_loop L eng mdl its rs tr w = (Inr rs', tr', w') \<Longrightarrow>
     map o_operation rs' = map o_operation rs @ map operation its"
proof (induction its arbitrary: rs tr w)
  case Nil
  then show ?case by simp
next
  case (Cons it its)
  let ?r = "run_item L eng mdl it rs w"
  from Cons.prems have t: "thrown ?r = None"
    by (auto simp: Let_def split: option.splits)
  with Cons.prems have loop: "item_loop L eng mdl its (results_after ?r) (tr @ calls ?r) (world ?r)
      = (Inr rs', tr', w')" by (simp add: Let_def)
  from run_item_summary[of L eng mdl it rs w] t obtain rec where
    rec: "results_after ?r = rs @ [rec]" "o_operation rec = operation it" by auto
  from Cons.IH[OF loop] rec show ?case by simp
qed

lemma execute_records:
  assumes "execute L eng conn items w = (Inr rs, tr, w')"
  shows "length rs = length items \<and> map o_operation rs = map operation items"
proof -
  from assms obtain mdl where "item_loop L eng mdl items [] [] w = (Inr rs, tr, w')"
    by (auto simp: execute_def split: sum.splits)
  from item_loop_records[OF this] have m: "map o_operation rs = map operation items" by simp
  from map_eq_imp_length_eq[OF m] m show ?thesis by simp
qed

text \<open>
  Claim C1 at a batch of three act items whose second item cannot open its session: the
  error of \<open>init\<close> is thrown before the \<open>try\<close> statement, so no error record is
  pushed for the item; the run fails with that error and returns no output record at all,
  and the third item is never opened.
\<close>

theorem open_failure_aborts_batch:
  "fst (execute test_libs test_engine (Some test_model) [ok_item, down_item, ok_item] [])
     = Inl (Error (js ''connect ECONNREFUSED''))
   \<and> map call_name
        (fst (snd (execute test_libs test_engine (Some test_model) [ok_item, down_item, ok_item] [])))
     = [''init'', ''act'', ''close'', ''init'']"
  by (simp add: execute_def check_test_model run_ok_item run_down_item)

text \<open>
  Claim C2 at an item whose session opens and whose navigation fails: the error of
  \<open>goto\<close> is thrown before the \<open>try\<close> statement, so the \<open>finally\<close> block does not
  run; the session is never closed, and the run fails with the navigation error.
\<close>

theorem navigation_failure_skips_close:
  "thrown (run_item test_libs test_engine test_mdl unreachable_item [] [])
     = Some (Error (js ''net::ERR_NAME_NOT_RESOLVED''))
   \<and> map call_name (calls (run_item test_libs test_engine test_mdl unreachable_item [] []))
     = [''init'', ''goto'']
   \<and> fst (execute test_libs test_engine (Some test_model) [unreachable_item, ok_item] [])
     = Inl (Error (js ''net::ERR_NAME_NOT_RESOLVED''))
   \<and> map call_name
        (fst (snd (execute test_libs test_engine (Some test_model) [unreachable_item, ok_item] [])))
     = [''init'', ''goto'']"
  by (simp add: execute_def check_test_model run_unreachable_item)

end
